theory Spec2Isabelle
  imports Complex_Main
begin

section \<open>Real option value by least-squares Monte Carlo: the script \<open>real_options_v1.py\<close>\<close>

text \<open>
  The script is one pass: simulate price and operating-cost paths, build after-tax cash
  flows, discount them, regress the continuation value on the state at the decision year,
  and compare the expected net present value with and without the option to sell.

  Numbers are modelled as real numbers (exact arithmetic), numpy's two-dimensional arrays
  as lists of rows (one row per simulation), and one-dimensional arrays as lists.
\<close>

subsection \<open>Inputs\<close>

type_synonym matrix = "real list list"

datatype error = ValueError | IndexError | ZeroDivisionError | NonRealLog

text \<open>The constants at the top of the script (lines 54 to 79), under their own names.\<close>

record config =
  T :: nat
  n_sim :: nat
  buyout :: real
  buy_year :: nat
  r :: real
  price_0 :: real
  price_sigma :: real
  roy_rate :: real
  opex_0 :: real
  opex_k :: real
  opex_lr :: real
  opex_sigma :: real
  capex :: real
  tax_rate :: real
  depr_sch :: "real list"

text \<open>The values the script gives them.\<close>

definition mine_co :: config where
  "mine_co =
     \<lparr>T = 10, n_sim = 1000, buyout = 100, buy_year = 5, r = 0.05,
      price_0 = 50, price_sigma = 0.3, roy_rate = 0.125,
      opex_0 = 25, opex_k = 0.5, opex_lr = 30, opex_sigma = 0.25,
      capex = 1250, tax_rate = 0.21,
      depr_sch = [0.1429, 0.2449, 0.1749, 0.1249, 0.0893, 0.0892, 0.0893, 0.0446]\<rparr>"

text \<open>
  Line 105: \<open>np.r_[depr_sch, np.zeros((T - len(depr_sch)))]\<close>, the schedule padded with
  zeros to the horizon. \<open>np.zeros\<close> raises \<open>ValueError\<close> on a negative length.
\<close>

definition depr_vec :: "config \<Rightarrow> error + real list" where
  "depr_vec c =
     (if T c < length (depr_sch c) then Inl ValueError
      else Inr (depr_sch c @ replicate (T c - length (depr_sch c)) 0))"

subsection \<open>Arrays\<close>

text \<open>\<open>m[:, j]\<close>: column \<open>j\<close> of a matrix, one entry per row.\<close>

definition col :: "matrix \<Rightarrow> nat \<Rightarrow> real list" where
  "col m j = map (\<lambda>row. row ! j) m"

text \<open>\<open>m[:, j] = v\<close>: the assignment of a vector to column \<open>j\<close>, row by row.\<close>

definition set_col :: "matrix \<Rightarrow> nat \<Rightarrow> real list \<Rightarrow> matrix" where
  "set_col m j v = map2 (\<lambda>row x. row[j := x]) m v"

text \<open>
  The shape \<open>(n, t)\<close> of a matrix. Every array of the script has the shape
  \<open>(n_sim, T)\<close>; the theorems below carry it as \<open>shape (n_sim c) (T c)\<close>.
\<close>

definition shape :: "nat \<Rightarrow> nat \<Rightarrow> matrix \<Rightarrow> bool" where
  "shape n t m = (length m = n \<and> list_all (\<lambda>row. length row = t) m)"

subsection \<open>The random source\<close>

text \<open>
  \<open>np.random.RandomState(1)\<close> is one stream of numbers. The generator itself
  (the Mersenne twister and the transformation to normal variates) is not modelled: the
  stream the seed determines is the parameter \<open>Z\<close>, and the state of the source is the
  stream together with the number of draws already taken from it.
\<close>

record rng_state =
  draws :: "nat \<Rightarrow> real"
  consumed :: nat

definition RandomState :: "(nat \<Rightarrow> real) \<Rightarrow> rng_state" where
  "RandomState Z = \<lparr>draws = Z, consumed = 0\<rparr>"

text \<open>\<open>rng.randn(n)\<close>: the next \<open>n\<close> draws, in order, and the advanced source.\<close>

definition randn :: "nat \<Rightarrow> rng_state \<Rightarrow> real list \<times> rng_state" where
  "randn n g =
     (map (\<lambda>i. draws g (consumed g + i)) [0..<n], g\<lparr>consumed := consumed g + n\<rparr>)"

subsection \<open>Path simulation (lines 85 to 96)\<close>

record sim_state =
  price :: matrix
  opex :: matrix
  rng :: rng_state

text \<open>
  Lines 87 and 88: \<open>np.c_[np.ones((n_sim, 1)) * x0, np.empty([n_sim, T - 1])]\<close>.
  \<open>np.empty\<close> raises \<open>ValueError\<close> on the negative dimension \<open>T - 1\<close> when
  \<open>T = 0\<close>. Its cells are uninitialised; the model fills them with 0, and the loop
  overwrites every one of them.
\<close>

definition init_matrix :: "nat \<Rightarrow> nat \<Rightarrow> real \<Rightarrow> error + matrix" where
  "init_matrix n t x0 =
     (if t = 0 then Inl ValueError
      else Inr (replicate n ((1 * x0) # replicate (t - 1) 0)))"

text \<open>Line 91: one step of the geometric Brownian motion of the price.\<close>

definition price_next :: "config \<Rightarrow> real \<Rightarrow> real \<Rightarrow> real" where
  "price_next c p z = p * exp (- 0.5 * (price_sigma c)\<^sup>2 * 1 + price_sigma c * z)"

text \<open>Line 95: one step of the mean reversion of the logarithm of the operating cost.\<close>

definition opex_next :: "config \<Rightarrow> real \<Rightarrow> real \<Rightarrow> real" where
  "opex_next c x z =
     exp (ln x + opex_k c * (ln (opex_lr c) - ln x) * 1 + opex_sigma c * z)"

text \<open>
  The body of the loop, for period \<open>t\<close>: first \<open>n_sim\<close> draws for the prices, then
  \<open>n_sim\<close> draws for the operating costs. \<open>np.log\<close> of a number that is not positive
  is \<open>nan\<close> or \<open>-inf\<close>, which no real number models (HOL's \<open>ln\<close> is a different,
  total function there): the model stops with \<open>NonRealLog\<close> where the script takes such
  a logarithm.
\<close>

definition sim_step :: "config \<Rightarrow> nat \<Rightarrow> sim_state \<Rightarrow> error + sim_state" where
  "sim_step c t st =
     (let (z, g) = randn (n_sim c) (rng st);
          price' = set_col (price st) t (map2 (price_next c) (col (price st) (t - 1)) z)
      in if opex_lr c \<le> 0 \<or> list_ex (\<lambda>x. x \<le> 0) (col (opex st) (t - 1))
         then Inl NonRealLog
         else
           let (z', g') = randn (n_sim c) g;
               opex' = set_col (opex st) t (map2 (opex_next c) (col (opex st) (t - 1)) z')
           in Inr \<lparr>price = price', opex = opex', rng = g'\<rparr>)"

text \<open>\<open>for t in np.arange(1, T)\<close>: the loop over the periods, stopping at an error.\<close>

fun sim_loop :: "config \<Rightarrow> nat list \<Rightarrow> sim_state \<Rightarrow> error + sim_state" where
  "sim_loop c [] st = Inr st"
| "sim_loop c (t # ts) st =
     (case sim_step c t st of Inl e \<Rightarrow> Inl e | Inr st' \<Rightarrow> sim_loop c ts st')"

text \<open>Lines 85 to 88: the seeded source and the two matrices before the loop.\<close>

definition sim_init :: "config \<Rightarrow> (nat \<Rightarrow> real) \<Rightarrow> error + sim_state" where
  "sim_init c Z =
     (case init_matrix (n_sim c) (T c) (price_0 c) of
        Inl e \<Rightarrow> Inl e
      | Inr p0 \<Rightarrow>
          (case init_matrix (n_sim c) (T c) (opex_0 c) of
             Inl e \<Rightarrow> Inl e
           | Inr o0 \<Rightarrow> Inr \<lparr>price = p0, opex = o0, rng = RandomState Z\<rparr>))"

definition simulate :: "config \<Rightarrow> (nat \<Rightarrow> real) \<Rightarrow> error + sim_state" where
  "simulate c Z =
     (case sim_init c Z of
        Inl e \<Rightarrow> Inl e
      | Inr st0 \<Rightarrow> sim_loop c [1..<T c] st0)"

subsection \<open>Cash flows (lines 72 and 99 to 107)\<close>

text \<open>
  Line 72: \<open>np.logspace(1, 0, T)\<close>, the quantity mined in each period: ten to the
  power of \<open>T\<close> evenly spaced exponents from 1 down to 0.
\<close>

definition quant :: "config \<Rightarrow> real list" where
  "quant c = map (\<lambda>i. 10 powr (1 + real i * ((0 - 1) / real (T c - 1)))) [0..<T c]"

record cash_flows =
  rev_gross :: matrix
  roy :: matrix
  rev_net :: matrix
  btcf :: matrix
  tax :: matrix
  atcf :: matrix

text \<open>
  Lines 99 to 107. A vector combined with a matrix acts on every row; two matrices are
  combined cell by cell. The only failure is the padding of the depreciation schedule.
\<close>

definition cash_flow :: "config \<Rightarrow> sim_state \<Rightarrow> error + cash_flows" where
  "cash_flow c st =
     (let rev_gross' = map (\<lambda>row. map2 (*) row (quant c)) (price st);
          roy' = map (map (\<lambda>x. x * roy_rate c)) rev_gross';
          rev_net' = map2 (map2 (-)) rev_gross' roy';
          btcf' = map2 (map2 (-)) rev_net' (opex st)
      in case depr_vec c of
           Inl e \<Rightarrow> Inl e
         | Inr dv \<Rightarrow>
             let tax' = map (\<lambda>row. map (\<lambda>x. tax_rate c * x)
                                (map2 (-) row (map (\<lambda>d. capex c * d) dv))) btcf';
                 atcf' = map2 (map2 (-)) btcf' tax'
             in Inr \<lparr>rev_gross = rev_gross', roy = roy', rev_net = rev_net',
                     btcf = btcf', tax = tax', atcf = atcf'\<rparr>)"

subsection \<open>The regression\<close>

text \<open>\<open>.mean(axis=0)\<close> of a vector.\<close>

definition mean :: "real list \<Rightarrow> real" where
  "mean xs = sum_list xs / real (length xs)"

record linear_model =
  coef :: "real \<times> real"
  intercept :: real

text \<open>
  Modelled from the spec: \<open>linear_model.LinearRegression\<close> (lines 127 to 132) is a
  routine of the scikit-learn library, which is not part of the repository. The spec
  calls it ``an ordinary least-squares linear model with two regressors (price and opex
  observed at the decision period) against the continuation value target, across all
  simulations''; the routine is called with its defaults, so an intercept is fitted.
  The model centres both regressors and the target at their means, solves the normal
  equations of the centred data (taking the solution of least norm where they are
  singular), and sets the intercept so that the fitted plane passes through the means.
  The routine rejects an empty sample and a target of another length.
\<close>

definition fit :: "(real \<times> real) list \<Rightarrow> real list \<Rightarrow> error + linear_model" where
  "fit X y =
     (if length X = 0 \<or> length X \<noteq> length y then Inl ValueError
      else
        let xm = mean (map fst X); zm = mean (map snd X); ym = mean y;
            u = map (\<lambda>p. fst p - xm) X;
            v = map (\<lambda>p. snd p - zm) X;
            w = map (\<lambda>t. t - ym) y;
            suu = sum_list (map2 (*) u u);
            suv = sum_list (map2 (*) u v);
            svv = sum_list (map2 (*) v v);
            suw = sum_list (map2 (*) u w);
            svw = sum_list (map2 (*) v w);
            det = suu * svv - suv * suv;
            b = (if det \<noteq> 0
                 then ((svv * suw - suv * svw) / det, (suu * svw - suv * suw) / det)
                 else if suu + svv \<noteq> 0
                 then (suw / (suu + svv), svw / (suu + svv))
                 else (0, 0))
        in Inr \<lparr>coef = b, intercept = ym - (xm * fst b + zm * snd b)\<rparr>)"

definition predict :: "linear_model \<Rightarrow> (real \<times> real) list \<Rightarrow> real list" where
  "predict m X = map (\<lambda>p. fst p * fst (coef m) + snd p * snd (coef m) + intercept m) X"

subsection \<open>Valuation (lines 114 to 142)\<close>

text \<open>
  Line 114: \<open>(1 + r)**(-i - 1)\<close> for \<open>i\<close> in \<open>range(T)\<close>. Python raises
  \<open>ZeroDivisionError\<close> for a zero base and a negative exponent.
\<close>

definition dis_fact :: "config \<Rightarrow> error + real list" where
  "dis_fact c =
     (if 0 < T c \<and> 1 + r c = 0 then Inl ZeroDivisionError
      else Inr (map (\<lambda>i. (1 + r c) powi (- int i - 1)) [0..<T c]))"

record result =
  npv :: "real list"
  npv_cont :: "real list"
  regr :: linear_model
  cv_pred :: "real list"
  max_val :: "real list"
  enpv_w_opt :: real
  enpv_wo_opt :: real
  opt_val :: real

text \<open>
  Lines 117 to 142, from the simulated paths and the after-tax cash flows \<open>a\<close>.
  \<open>price[:, buy_year]\<close> raises \<open>IndexError\<close> when the matrix has no such column.
\<close>

definition valuation :: "config \<Rightarrow> sim_state \<Rightarrow> matrix \<Rightarrow> error + result" where
  "valuation c st a =
     (case dis_fact c of
        Inl e \<Rightarrow> Inl e
      | Inr d \<Rightarrow>
          let npv' = map (\<lambda>row. sum_list (map2 (*) row d)) a;
              npv_cont' = map (\<lambda>row. sum_list (map2 (*) (drop (buy_year c) row)
                                                 (drop (buy_year c) d))) a
          in if T c \<le> buy_year c then Inl IndexError
             else
               let X_price = col (price st) (buy_year c);
                   X_opex = col (opex st) (buy_year c);
                   X = zip X_price X_opex
               in case fit X npv_cont' of
                    Inl e \<Rightarrow> Inl e
                  | Inr m \<Rightarrow>
                      let cv_pred' = predict m X;
                          max_val' = map (\<lambda>v. max v (buyout c)) cv_pred';
                          enpv_w_opt' =
                            mean (map (\<lambda>row. sum_list (map2 (*) (take (buy_year c) row)
                                                          (take (buy_year c) d))) a)
                              + mean max_val' - capex c;
                          enpv_wo_opt' = mean npv' - capex c
                      in Inr \<lparr>npv = npv', npv_cont = npv_cont', regr = m,
                              cv_pred = cv_pred', max_val = max_val',
                              enpv_w_opt = enpv_w_opt', enpv_wo_opt = enpv_wo_opt',
                              opt_val = enpv_w_opt' - enpv_wo_opt'\<rparr>)"

subsection \<open>The whole script\<close>

definition run :: "config \<Rightarrow> (nat \<Rightarrow> real) \<Rightarrow> error + result" where
  "run c Z =
     (case simulate c Z of
        Inl e \<Rightarrow> Inl e
      | Inr st \<Rightarrow>
          (case cash_flow c st of
             Inl e \<Rightarrow> Inl e
           | Inr cf \<Rightarrow> valuation c st (atcf cf)))"

subsection \<open>Inputs for worked examples\<close>

text \<open>A stream of draws that are all zero.\<close>

definition no_shocks :: "nat \<Rightarrow> real" where
  "no_shocks i = 0"

text \<open>
  A small instance of the script's constants: two periods, three simulations, the
  decision at period index 1, and a one-entry depreciation schedule; with it, three
  paths of the right shape.
\<close>

definition two_period :: config where
  "two_period = mine_co\<lparr>T := 2, n_sim := 3, buy_year := 1, depr_sch := [0.5]\<rparr>"

definition two_period_paths :: sim_state where
  "two_period_paths =
     \<lparr>price = [[50, 40], [50, 60], [50, 55]],
      opex = [[25, 30], [25, 20], [25, 28]],
      rng = RandomState no_shocks\<rparr>"

text \<open>
  The after-tax cash flows of the small instance (the last matrix that lines 99 to 107
  compute from its paths), and a second instance with four simulations, a buyout of 20
  and after-tax cash flows chosen so that the regression does not fit exactly.
\<close>

definition two_period_atcf :: matrix where
  "two_period_atcf = [[457.125, 3.95], [457.125, 25.675], [457.125, 15.89875]]"

definition four_sims :: config where
  "four_sims = two_period\<lparr>n_sim := 4, buyout := 20\<rparr>"

definition four_sims_paths :: sim_state where
  "four_sims_paths =
     \<lparr>price = [[50, 40], [50, 60], [50, 55], [50, 45]],
      opex = [[25, 30], [25, 20], [25, 28], [25, 22]],
      rng = RandomState no_shocks\<rparr>"

definition four_sims_atcf :: matrix where
  "four_sims_atcf = [[450, 4], [450, 25], [450, 16], [450, 60]]"


section \<open>Properties\<close>

subsection \<open>Arrays and the random source\<close>

lemma shape_length: "shape n t m \<Longrightarrow> length m = n"
  by (simp add: shape_def)

lemma shape_row: "shape n t m \<Longrightarrow> s < n \<Longrightarrow> length (m ! s) = t"
  by (simp add: shape_def list_all_length)

lemma shapeI: "length m = n \<Longrightarrow> (\<And>s. s < n \<Longrightarrow> length (m ! s) = t) \<Longrightarrow> shape n t m"
  by (simp add: shape_def list_all_length)

lemma length_col [simp]: "length (col m j) = length m"
  by (simp add: col_def)

lemma col_nth [simp]: "s < length m \<Longrightarrow> col m j ! s = m ! s ! j"
  by (simp add: col_def)

lemma length_set_col [simp]: "length (set_col m j v) = min (length m) (length v)"
  by (simp add: set_col_def)

lemma set_col_nth:
  "s < length m \<Longrightarrow> s < length v \<Longrightarrow> set_col m j v ! s = (m ! s)[j := v ! s]"
  by (simp add: set_col_def)

lemma shape_set_col: "shape n t m \<Longrightarrow> length v = n \<Longrightarrow> shape n t (set_col m j v)"
  by (rule shapeI) (simp_all add: shape_length shape_row set_col_nth)

lemma length_randn [simp]: "length (fst (randn n g)) = n"
  by (simp add: randn_def)

lemma randn_nth [simp]: "i < n \<Longrightarrow> fst (randn n g) ! i = draws g (consumed g + i)"
  by (simp add: randn_def)

lemma randn_state [simp]:
  "draws (snd (randn n g)) = draws g" "consumed (snd (randn n g)) = consumed g + n"
  by (simp_all add: randn_def)

lemma sim_step_Inr:
  assumes "sim_step c t st = Inr st'"
  shows "price st' = set_col (price st) t
           (map2 (price_next c) (col (price st) (t - 1)) (fst (randn (n_sim c) (rng st))))"
    and "opex st' = set_col (opex st) t
           (map2 (opex_next c) (col (opex st) (t - 1))
              (fst (randn (n_sim c) (snd (randn (n_sim c) (rng st))))))"
    and "rng st' = snd (randn (n_sim c) (snd (randn (n_sim c) (rng st))))"
    and "0 < opex_lr c"
    and "\<not> list_ex (\<lambda>x. x \<le> 0) (col (opex st) (t - 1))"
  using assms
  by (auto simp: sim_step_def Let_def split_beta split: if_splits)

lemma sim_step_total:
  assumes "0 < opex_lr c" "\<not> list_ex (\<lambda>x. x \<le> 0) (col (opex st) (t - 1))"
  shows "\<exists>st'. sim_step c t st = Inr st'"
  using assms by (simp add: sim_step_def Let_def split_beta)

lemma sim_loop_snoc:
  "sim_loop c (ts @ [t]) st =
     (case sim_loop c ts st of Inl e \<Rightarrow> Inl e | Inr st' \<Rightarrow> sim_step c t st')"
  by (induction ts arbitrary: st) (auto split: sum.splits)


lemma sim_step_cells:
  assumes step: "sim_step c t st = Inr st'"
    and shp: "shape (n_sim c) tt (price st)" "shape (n_sim c) tt (opex st)"
  shows "shape (n_sim c) tt (price st')" "shape (n_sim c) tt (opex st')"
    and "draws (rng st') = draws (rng st)"
    and "consumed (rng st') = consumed (rng st) + 2 * n_sim c"
    and "s < n_sim c \<Longrightarrow> price st' ! s =
           (price st ! s)[t := price_next c (price st ! s ! (t - 1))
                                 (draws (rng st) (consumed (rng st) + s))]"
    and "s < n_sim c \<Longrightarrow> opex st' ! s =
           (opex st ! s)[t := opex_next c (opex st ! s ! (t - 1))
                                (draws (rng st) (consumed (rng st) + n_sim c + s))]"
proof -
  note eqs = sim_step_Inr(1-3)[OF step]
  have lp: "length (price st) = n_sim c" and lo: "length (opex st) = n_sim c"
    using shp by (simp_all add: shape_length)
  show "shape (n_sim c) tt (price st')"
    unfolding eqs by (rule shape_set_col[OF shp(1)]) (simp add: lp)
  show "shape (n_sim c) tt (opex st')"
    unfolding eqs by (rule shape_set_col[OF shp(2)]) (simp add: lo)
  show "draws (rng st') = draws (rng st)"
    unfolding eqs by simp
  show "consumed (rng st') = consumed (rng st) + 2 * n_sim c"
    unfolding eqs by simp
  show "price st' ! s =
          (price st ! s)[t := price_next c (price st ! s ! (t - 1))
                                (draws (rng st) (consumed (rng st) + s))]" if "s < n_sim c"
    unfolding eqs using that by (simp add: set_col_nth lp)
  show "opex st' ! s =
          (opex st ! s)[t := opex_next c (opex st ! s ! (t - 1))
                               (draws (rng st) (consumed (rng st) + n_sim c + s))]" if "s < n_sim c"
    unfolding eqs using that by (simp add: set_col_nth lo add.assoc)
qed

lemma opex_next_pos: "0 < opex_next c x z"
  by (simp add: opex_next_def)

lemma col_pos:
  "length m = n \<Longrightarrow> (\<And>s. s < n \<Longrightarrow> 0 < m ! s ! j) \<Longrightarrow> \<not> list_ex (\<lambda>x. x \<le> 0) (col m j)"
  by (auto simp: list_ex_length not_le)


lemma sim_loop_inv:
  assumes shp0: "shape (n_sim c) (T c) (price st0)" "shape (n_sim c) (T c) (opex st0)"
    and rng0: "draws (rng st0) = Z" "consumed (rng st0) = 0"
    and lr: "0 < opex_lr c"
    and pos0: "\<And>s. s < n_sim c \<Longrightarrow> 0 < opex st0 ! s ! 0"
    and k: "k < T c"
  shows "\<exists>st. sim_loop c [1..<Suc k] st0 = Inr st
          \<and> shape (n_sim c) (T c) (price st) \<and> shape (n_sim c) (T c) (opex st)
          \<and> draws (rng st) = Z \<and> consumed (rng st) = 2 * n_sim c * k
          \<and> (\<forall>s<n_sim c. price st ! s ! 0 = price st0 ! s ! 0
                \<and> opex st ! s ! 0 = opex st0 ! s ! 0)
          \<and> (\<forall>s<n_sim c. \<forall>t. 1 \<le> t \<and> t \<le> k \<longrightarrow>
                price st ! s ! t =
                  price_next c (price st ! s ! (t - 1)) (Z (2 * n_sim c * (t - 1) + s))
                \<and> opex st ! s ! t =
                  opex_next c (opex st ! s ! (t - 1))
                    (Z (2 * n_sim c * (t - 1) + n_sim c + s)))"
  using k
proof (induction k)
  case 0
  show ?case using shp0 rng0 by simp
next
  case (Suc k)
  then have "k < T c" by simp
  from Suc.IH[OF this] obtain st where
    loop: "sim_loop c [1..<Suc k] st0 = Inr st"
    and shp: "shape (n_sim c) (T c) (price st)" "shape (n_sim c) (T c) (opex st)"
    and rng: "draws (rng st) = Z" "consumed (rng st) = 2 * n_sim c * k"
    and c0: "\<And>s. s < n_sim c \<Longrightarrow> price st ! s ! 0 = price st0 ! s ! 0"
            "\<And>s. s < n_sim c \<Longrightarrow> opex st ! s ! 0 = opex st0 ! s ! 0"
    and rec: "\<And>s t. s < n_sim c \<Longrightarrow> 1 \<le> t \<Longrightarrow> t \<le> k \<Longrightarrow>
                price st ! s ! t =
                  price_next c (price st ! s ! (t - 1)) (Z (2 * n_sim c * (t - 1) + s))"
             "\<And>s t. s < n_sim c \<Longrightarrow> 1 \<le> t \<Longrightarrow> t \<le> k \<Longrightarrow>
                opex st ! s ! t =
                  opex_next c (opex st ! s ! (t - 1))
                    (Z (2 * n_sim c * (t - 1) + n_sim c + s))"
    by blast
  have posk: "0 < opex st ! s ! k" if "s < n_sim c" for s
  proof (cases "k = 0")
    case True
    then show ?thesis using c0(2)[OF that] pos0[OF that] by simp
  next
    case False
    then show ?thesis using rec(2)[OF that, of k] by (simp add: opex_next_pos)
  qed
  have "\<not> list_ex (\<lambda>x. x \<le> 0) (col (opex st) (Suc k - 1))"
    using col_pos[OF shape_length[OF shp(2)], of k] posk by simp
  from sim_step_total[OF lr this] obtain st' where step: "sim_step c (Suc k) st = Inr st'"
    by blast
  note cells = sim_step_cells[OF step shp]
  have rowp: "length (price st ! s) = T c" and rowo: "length (opex st ! s) = T c"
    if "s < n_sim c" for s
    using shape_row[OF shp(1) that] shape_row[OF shp(2) that] by simp_all
  have run: "sim_loop c [1..<Suc (Suc k)] st0 = Inr st'"
    using loop step by (simp add: sim_loop_snoc)
  have cons: "consumed (rng st') = 2 * n_sim c * Suc k"
    using cells(4) rng(2) by simp
  have col0: "price st' ! s ! 0 = price st0 ! s ! 0 \<and> opex st' ! s ! 0 = opex st0 ! s ! 0"
    if "s < n_sim c" for s
    using that cells(5,6)[OF that] c0[OF that] by simp
  have recs: "price st' ! s ! t =
                  price_next c (price st' ! s ! (t - 1)) (Z (2 * n_sim c * (t - 1) + s))
              \<and> opex st' ! s ! t =
                  opex_next c (opex st' ! s ! (t - 1))
                    (Z (2 * n_sim c * (t - 1) + n_sim c + s))"
    if s: "s < n_sim c" and t: "1 \<le> t" "t \<le> Suc k" for s t
  proof (cases "t = Suc k")
    case True
    then show ?thesis
      using cells(5,6)[OF s] rowp[OF s] rowo[OF s] Suc.prems rng
      by simp
  next
    case False
    with t have "t \<le> k" by simp
    then show ?thesis
      using cells(5,6)[OF s] rec[OF s t(1)] t by simp
  qed
  show ?case
    using run cells(1,2,3) rng(1) cons col0 recs by auto
qed

subsection \<open>The simulation as a whole\<close>

lemma shape_init_row: "0 < t \<Longrightarrow> shape n t (replicate n (x # replicate (t - Suc 0) 0))"
  by (simp add: shape_def list_all_length)

lemma sim_init_Inr:
  assumes "sim_init c Z = Inr st0"
  shows "0 < T c"
    and "shape (n_sim c) (T c) (price st0)" "shape (n_sim c) (T c) (opex st0)"
    and "draws (rng st0) = Z" "consumed (rng st0) = 0"
    and "s < n_sim c \<Longrightarrow> price st0 ! s ! 0 = price_0 c"
    and "s < n_sim c \<Longrightarrow> opex st0 ! s ! 0 = opex_0 c"
  using assms
  by (auto simp: sim_init_def init_matrix_def RandomState_def shape_init_row split: if_splits)

lemma sim_init_total: "0 < T c \<Longrightarrow> \<exists>st0. sim_init c Z = Inr st0"
  by (simp add: sim_init_def init_matrix_def)

lemma sim_loop_append:
  "sim_loop c (ts @ us) st =
     (case sim_loop c ts st of Inl e \<Rightarrow> Inl e | Inr st' \<Rightarrow> sim_loop c us st')"
  by (induction ts arbitrary: st) (auto split: sum.splits)

lemma sim_loop_preserves:
  assumes "sim_loop c ts st0 = Inr st"
    and "\<And>t. t \<in> set ts \<Longrightarrow> 1 \<le> t"
    and "shape (n_sim c) tt (price st0)" "shape (n_sim c) tt (opex st0)"
  shows "shape (n_sim c) tt (price st) \<and> shape (n_sim c) tt (opex st)
         \<and> (\<forall>s<n_sim c. price st ! s ! 0 = price st0 ! s ! 0
               \<and> opex st ! s ! 0 = opex st0 ! s ! 0)"
  using assms
proof (induction ts arbitrary: st0)
  case Nil
  then show ?case by simp
next
  case (Cons t ts)
  from Cons.prems(1) obtain st1 where
    step: "sim_step c t st0 = Inr st1" and rest: "sim_loop c ts st1 = Inr st"
    by (auto split: sum.splits)
  note cells = sim_step_cells[OF step Cons.prems(3,4)]
  have t: "t \<noteq> 0" using Cons.prems(2)[of t] by simp
  have keep: "price st1 ! s ! 0 = price st0 ! s ! 0 \<and> opex st1 ! s ! 0 = opex st0 ! s ! 0"
    if "s < n_sim c" for s
    using cells(5,6)[OF that] t by simp
  have "shape (n_sim c) tt (price st) \<and> shape (n_sim c) tt (opex st)
         \<and> (\<forall>s<n_sim c. price st ! s ! 0 = price st1 ! s ! 0
               \<and> opex st ! s ! 0 = opex st1 ! s ! 0)"
    by (rule Cons.IH[OF rest _ cells(1,2)]) (use Cons.prems(2) in auto)
  with keep show ?case by simp
qed

lemma simulate_Inr:
  assumes "simulate c Z = Inr st"
  shows "0 < T c"
    and "shape (n_sim c) (T c) (price st)" "shape (n_sim c) (T c) (opex st)"
    and "s < n_sim c \<Longrightarrow> price st ! s ! 0 = price_0 c"
    and "s < n_sim c \<Longrightarrow> opex st ! s ! 0 = opex_0 c"
proof -
  from assms obtain st0 where
    init: "sim_init c Z = Inr st0" and loop: "sim_loop c [1..<T c] st0 = Inr st"
    by (auto simp: simulate_def split: sum.splits)
  note i = sim_init_Inr[OF init]
  have p: "shape (n_sim c) (T c) (price st) \<and> shape (n_sim c) (T c) (opex st)
         \<and> (\<forall>s<n_sim c. price st ! s ! 0 = price st0 ! s ! 0
               \<and> opex st ! s ! 0 = opex st0 ! s ! 0)"
    by (rule sim_loop_preserves[OF loop _ i(2,3)]) simp
  show "0 < T c" by (rule i(1))
  show "shape (n_sim c) (T c) (price st)" "shape (n_sim c) (T c) (opex st)"
    using p by simp_all
  show "price st ! s ! 0 = price_0 c" if "s < n_sim c"
    using p i(6)[OF that] that by simp
  show "opex st ! s ! 0 = opex_0 c" if "s < n_sim c"
    using p i(7)[OF that] that by simp
qed

lemma simulate_total:
  assumes T: "0 < T c" and lr: "0 < opex_lr c" and o0: "0 < opex_0 c"
  shows "\<exists>st. simulate c Z = Inr st
          \<and> shape (n_sim c) (T c) (price st) \<and> shape (n_sim c) (T c) (opex st)
          \<and> draws (rng st) = Z \<and> consumed (rng st) = 2 * n_sim c * (T c - 1)
          \<and> (\<forall>s<n_sim c. price st ! s ! 0 = price_0 c \<and> opex st ! s ! 0 = opex_0 c)
          \<and> (\<forall>s<n_sim c. \<forall>t. 1 \<le> t \<and> t \<le> T c - 1 \<longrightarrow>
                price st ! s ! t =
                  price_next c (price st ! s ! (t - 1)) (Z (2 * n_sim c * (t - 1) + s))
                \<and> opex st ! s ! t =
                  opex_next c (opex st ! s ! (t - 1))
                    (Z (2 * n_sim c * (t - 1) + n_sim c + s)))"
proof -
  from sim_init_total[OF T] obtain st0 where init: "sim_init c Z = Inr st0" by blast
  note i = sim_init_Inr[OF init]
  have pos0: "0 < opex st0 ! s ! 0" if "s < n_sim c" for s
    using i(7)[OF that] o0 by simp
  have k: "T c - 1 < T c" using T by simp
  have upt: "[1..<Suc (T c - 1)] = [1..<T c]" using T by simp
  have sim: "simulate c Z = sim_loop c [1..<T c] st0"
    by (simp add: simulate_def init)
  show ?thesis
    using sim_loop_inv[OF i(2,3,4,5) lr pos0 k, unfolded upt] i(6,7) unfolding sim by auto
qed

lemma draw_index_bound:
  assumes "s < n" "Suc t \<le> k"
  shows "2 * n * t + s < 2 * n * k" "2 * n * t + n + s < 2 * n * k"
proof -
  have "2 * n * t + 2 * n = 2 * n * Suc t" by simp
  also have "\<dots> \<le> 2 * n * k" using assms(2) by (intro mult_le_mono2)
  finally have "2 * n * t + 2 * n \<le> 2 * n * k" .
  with assms(1) show "2 * n * t + s < 2 * n * k" "2 * n * t + n + s < 2 * n * k"
    by simp_all
qed

lemma matrix_eqI:
  assumes "shape n t a" "shape n t b"
    and "\<And>s i. s < n \<Longrightarrow> i < t \<Longrightarrow> a ! s ! i = b ! s ! i"
  shows "a = b"
proof (rule nth_equalityI)
  show "length a = length b" using assms(1,2) by (simp add: shape_length)
  fix s assume "s < length a"
  then have s: "s < n" using assms(1) by (simp add: shape_length)
  show "a ! s = b ! s"
  proof (rule nth_equalityI)
    show "length (a ! s) = length (b ! s)"
      using shape_row[OF assms(1) s] shape_row[OF assms(2) s] by simp
    fix i assume "i < length (a ! s)"
    then have "i < t" using shape_row[OF assms(1) s] by simp
    then show "a ! s ! i = b ! s ! i" by (rule assms(3)[OF s])
  qed
qed

lemma paths_determined:
  assumes shp: "shape n tt (price st)" "shape n tt (price st')"
               "shape n tt (opex st)" "shape n tt (opex st')"
    and c0: "\<And>s. s < n \<Longrightarrow> price st ! s ! 0 = p0 \<and> opex st ! s ! 0 = o0"
            "\<And>s. s < n \<Longrightarrow> price st' ! s ! 0 = p0 \<and> opex st' ! s ! 0 = o0"
    and rec: "\<And>s t. s < n \<Longrightarrow> 1 \<le> t \<and> t \<le> tt - 1 \<Longrightarrow>
                price st ! s ! t = price_next c (price st ! s ! (t - 1)) (Z (2 * n * (t - 1) + s))
                \<and> opex st ! s ! t = opex_next c (opex st ! s ! (t - 1)) (Z (2 * n * (t - 1) + n + s))"
    and rec': "\<And>s t. s < n \<Longrightarrow> 1 \<le> t \<and> t \<le> tt - 1 \<Longrightarrow>
                price st' ! s ! t = price_next c (price st' ! s ! (t - 1)) (Z' (2 * n * (t - 1) + s))
                \<and> opex st' ! s ! t = opex_next c (opex st' ! s ! (t - 1)) (Z' (2 * n * (t - 1) + n + s))"
    and agree: "\<And>i. i < 2 * n * (tt - 1) \<Longrightarrow> Z' i = Z i"
  shows "price st' = price st \<and> opex st' = opex st"
proof -
  have cell: "price st' ! s ! t = price st ! s ! t \<and> opex st' ! s ! t = opex st ! s ! t"
    if s: "s < n" and t: "t \<le> tt - 1" for s t
    using t
  proof (induction t)
    case 0
    show ?case using c0(1)[OF s] c0(2)[OF s] by simp
  next
    case (Suc t)
    then have ih: "price st' ! s ! t = price st ! s ! t \<and> opex st' ! s ! t = opex st ! s ! t"
      by simp
    have b: "1 \<le> Suc t \<and> Suc t \<le> tt - 1" using Suc.prems by simp
    have z: "Z' (2 * n * t + s) = Z (2 * n * t + s)"
            "Z' (2 * n * t + n + s) = Z (2 * n * t + n + s)"
      using draw_index_bound[OF s Suc.prems] by (simp_all add: agree)
    show ?case
      using rec[OF s b] rec'[OF s b] ih z by simp
  qed
  have "price st' = price st"
    by (rule matrix_eqI[OF shp(2,1)]) (use cell in force)
  moreover have "opex st' = opex st"
    by (rule matrix_eqI[OF shp(4,3)]) (use cell in force)
  ultimately show ?thesis by simp
qed

lemma cash_flow_cong:
  "price st' = price st \<Longrightarrow> opex st' = opex st \<Longrightarrow> cash_flow c st' = cash_flow c st"
  by (simp add: cash_flow_def)

lemma valuation_cong:
  "price st' = price st \<Longrightarrow> opex st' = opex st \<Longrightarrow> valuation c st' a = valuation c st a"
  unfolding valuation_def by (simp cong: sum.case_cong if_cong)


lemma mine_co_simps [simp]:
  "T mine_co = 10" "n_sim mine_co = 1000" "buyout mine_co = 100" "buy_year mine_co = 5"
  "r mine_co = 0.05" "price_0 mine_co = 50" "opex_0 mine_co = 25" "opex_lr mine_co = 30"
  "capex mine_co = 1250" "tax_rate mine_co = 0.21" "roy_rate mine_co = 0.125"
  "length (depr_sch mine_co) = 8"
  by (simp_all add: mine_co_def)

text \<open>
  Claim C9: for every simulation, the first column of the price matrix is \<open>price_0\<close>
  and the first column of the opex matrix is \<open>opex_0\<close>, in the matrices the simulation
  returns and after any number \<open>k\<close> of iterations of the loop, which writes columns
  1 to \<open>T - 1\<close> only.
\<close>

theorem first_column_initial:
  assumes "s < n_sim c"
  shows "(simulate c Z = Inr st \<longrightarrow>
            price st ! s ! 0 = price_0 c \<and> opex st ! s ! 0 = opex_0 c)
         \<and> (sim_init c Z = Inr st0 \<and> k < T c \<and> sim_loop c [1..<Suc k] st0 = Inr stk \<longrightarrow>
               price stk ! s ! 0 = price_0 c \<and> opex stk ! s ! 0 = opex_0 c)"
proof (intro conjI impI)
  assume "simulate c Z = Inr st"
  from simulate_Inr(4,5)[OF this assms]
  show "price st ! s ! 0 = price_0 c" "opex st ! s ! 0 = opex_0 c" .
next
  assume a: "sim_init c Z = Inr st0 \<and> k < T c \<and> sim_loop c [1..<Suc k] st0 = Inr stk"
  note i = sim_init_Inr[of c Z st0]
  have "shape (n_sim c) (T c) (price stk) \<and> shape (n_sim c) (T c) (opex stk)
         \<and> (\<forall>s<n_sim c. price stk ! s ! 0 = price st0 ! s ! 0
               \<and> opex stk ! s ! 0 = opex st0 ! s ! 0)"
    by (rule sim_loop_preserves[of c "[1..<Suc k]" st0 stk]) (use a i(2,3) in auto)
  then show "price stk ! s ! 0 = price_0 c" "opex stk ! s ! 0 = opex_0 c"
    using i(6,7)[of s] a assms by simp_all
qed

theorem first_column_initial_witness:
  "(0::nat) < n_sim mine_co
   \<and> (\<exists>st. simulate mine_co no_shocks = Inr st
         \<and> price st ! 0 ! 0 = 50 \<and> opex st ! 0 ! 0 = 25)"
proof -
  obtain st where st: "simulate mine_co no_shocks = Inr st"
    using simulate_total[of mine_co no_shocks] by auto
  have "price st ! 0 ! 0 = price_0 mine_co \<and> opex st ! 0 ! 0 = opex_0 mine_co"
    using first_column_initial[of 0 mine_co no_shocks st] st by simp
  with st show ?thesis by auto
qed

lemma simulate_nonreal:
  assumes "1 < T c" "0 < n_sim c" "opex_0 c \<le> 0"
  shows "simulate c Z = Inl NonRealLog"
proof -
  from assms(1) have "0 < T c" by simp
  from sim_init_total[OF this] obtain st0 where init: "sim_init c Z = Inr st0" by blast
  note i = sim_init_Inr[OF init]
  have "length (col (opex st0) 0) = n_sim c"
    using i(3) by (simp add: shape_length)
  moreover have "col (opex st0) 0 ! 0 \<le> 0"
    using i(7)[OF assms(2)] assms(2,3) shape_length[OF i(3)] by simp
  ultimately have "list_ex (\<lambda>x. x \<le> 0) (col (opex st0) 0)"
    unfolding list_ex_length using assms(2) by auto
  then have step: "sim_step c (Suc 0) st0 = Inl NonRealLog"
    by (simp add: sim_step_def split_beta Let_def)
  have "[Suc 0..<T c] = Suc 0 # [Suc (Suc 0)..<T c]"
    using assms(1) by (simp add: upt_conv_Cons)
  then have "sim_loop c [Suc 0..<T c] st0 = Inl NonRealLog"
    by (simp add: step)
  then show ?thesis
    by (simp add: simulate_def init)
qed

text \<open>
  Claim C8, as stated: opex is strictly positive at every simulation and period for any
  finite inputs. With \<open>opex_0 = 0\<close> and the other constants of the script, line 88
  builds an opex matrix whose period 0 is 0, and the loop then takes the logarithm of 0;
  with one period only, the simulation returns that matrix.
\<close>

theorem opex_positive_counterexample:
  "(case sim_init (mine_co\<lparr>opex_0 := 0\<rparr>) no_shocks of
      Inl e \<Rightarrow> False | Inr st \<Rightarrow> \<not> 0 < opex st ! 0 ! 0)
   \<and> simulate (mine_co\<lparr>opex_0 := 0\<rparr>) no_shocks = Inl NonRealLog
   \<and> (case simulate (mine_co\<lparr>T := 1, opex_0 := 0\<rparr>) no_shocks of
        Inl e \<Rightarrow> False | Inr st \<Rightarrow> \<not> 0 < opex st ! 0 ! 0)"
proof (intro conjI)
  show "case sim_init (mine_co\<lparr>opex_0 := 0\<rparr>) no_shocks of
          Inl e \<Rightarrow> False | Inr st \<Rightarrow> \<not> 0 < opex st ! 0 ! 0"
    by (simp add: sim_init_def init_matrix_def)
  show "simulate (mine_co\<lparr>opex_0 := 0\<rparr>) no_shocks = Inl NonRealLog"
    by (rule simulate_nonreal) simp_all
  show "case simulate (mine_co\<lparr>T := 1, opex_0 := 0\<rparr>) no_shocks of
          Inl e \<Rightarrow> False | Inr st \<Rightarrow> \<not> 0 < opex st ! 0 ! 0"
    by (simp add: simulate_def sim_init_def init_matrix_def)
qed

text \<open>
  Claim C8, amended: when the initial value \<open>opex_0\<close> and the long-run level
  \<open>opex_lr\<close> are strictly positive (so that every logarithm is taken of a positive
  number), the simulation returns, and opex is strictly positive at every simulation and
  every period: period 0 is \<open>opex_0\<close> and every later period is an exponential.
\<close>

theorem opex_positive:
  assumes "0 < T c" "0 < opex_0 c" "0 < opex_lr c"
  shows "\<exists>st. simulate c Z = Inr st \<and> (\<forall>s<n_sim c. \<forall>t<T c. 0 < opex st ! s ! t)"
proof -
  from simulate_total[OF assms(1,3,2), of Z] obtain st where
    sim: "simulate c Z = Inr st"
    and c0: "\<And>s. s < n_sim c \<Longrightarrow> opex st ! s ! 0 = opex_0 c"
    and rec: "\<And>s t. s < n_sim c \<Longrightarrow> 1 \<le> t \<and> t \<le> T c - 1 \<Longrightarrow>
                opex st ! s ! t =
                  opex_next c (opex st ! s ! (t - 1)) (Z (2 * n_sim c * (t - 1) + n_sim c + s))"
    by blast
  have "0 < opex st ! s ! t" if "s < n_sim c" "t < T c" for s t
  proof (cases "t = 0")
    case True
    then show ?thesis using c0[OF that(1)] assms(2) by simp
  next
    case False
    then have "1 \<le> t \<and> t \<le> T c - 1" using that(2) by simp
    from rec[OF that(1) this] show ?thesis by (simp add: opex_next_pos)
  qed
  with sim show ?thesis by blast
qed

theorem opex_positive_witness:
  "0 < T mine_co \<and> 0 < opex_0 mine_co \<and> 0 < opex_lr mine_co
   \<and> (\<exists>st. simulate mine_co no_shocks = Inr st
         \<and> 0 < opex st ! 0 ! 0 \<and> 0 < opex st ! 999 ! 9)"
proof -
  obtain st where "simulate mine_co no_shocks = Inr st"
    and "\<forall>s<n_sim mine_co. \<forall>t<T mine_co. 0 < opex st ! s ! t"
    using opex_positive[of mine_co no_shocks] by auto
  then show ?thesis by auto
qed


text \<open>
  Claim C3: the script is a function of the stream of draws that the seed determines.
  The simulation takes exactly \<open>2 * n_sim * (T - 1)\<close> draws from the one source, in
  period-major order: for each period \<open>t\<close> from 1 to \<open>T - 1\<close>, simulation \<open>s\<close>
  uses draw number \<open>2 * n_sim * (t - 1) + s\<close> for its price and draw number
  \<open>2 * n_sim * (t - 1) + n_sim + s\<close> for its opex. Two runs whose streams agree on
  the draws taken produce the same paths and the same outputs.
\<close>

theorem draw_order_deterministic:
  assumes "0 < T c" "0 < opex_lr c" "0 < opex_0 c"
  shows "\<exists>st. simulate c Z = Inr st
          \<and> consumed (rng st) = 2 * n_sim c * (T c - 1)
          \<and> (\<forall>s<n_sim c. \<forall>t. 1 \<le> t \<and> t < T c \<longrightarrow>
                price st ! s ! t =
                  price_next c (price st ! s ! (t - 1)) (Z (2 * n_sim c * (t - 1) + s))
                \<and> opex st ! s ! t =
                  opex_next c (opex st ! s ! (t - 1))
                    (Z (2 * n_sim c * (t - 1) + n_sim c + s)))
          \<and> (\<forall>Z'. (\<forall>i<2 * n_sim c * (T c - 1). Z' i = Z i) \<longrightarrow>
                (\<exists>st'. simulate c Z' = Inr st' \<and> price st' = price st \<and> opex st' = opex st)
                \<and> run c Z' = run c Z)"
proof -
  from simulate_total[OF assms, of Z] obtain st where
    sim: "simulate c Z = Inr st"
    and shp: "shape (n_sim c) (T c) (price st)" "shape (n_sim c) (T c) (opex st)"
    and cons: "consumed (rng st) = 2 * n_sim c * (T c - 1)"
    and c0: "\<And>s. s < n_sim c \<Longrightarrow> price st ! s ! 0 = price_0 c \<and> opex st ! s ! 0 = opex_0 c"
    and rec: "\<And>s t. s < n_sim c \<Longrightarrow> 1 \<le> t \<and> t \<le> T c - 1 \<Longrightarrow>
                price st ! s ! t =
                  price_next c (price st ! s ! (t - 1)) (Z (2 * n_sim c * (t - 1) + s))
                \<and> opex st ! s ! t =
                  opex_next c (opex st ! s ! (t - 1))
                    (Z (2 * n_sim c * (t - 1) + n_sim c + s))"
    by blast
  have order: "price st ! s ! t =
                  price_next c (price st ! s ! (t - 1)) (Z (2 * n_sim c * (t - 1) + s))
                \<and> opex st ! s ! t =
                  opex_next c (opex st ! s ! (t - 1))
                    (Z (2 * n_sim c * (t - 1) + n_sim c + s))"
    if "s < n_sim c" "1 \<le> t \<and> t < T c" for s t
  proof -
    have "1 \<le> t \<and> t \<le> T c - 1" using that(2) by auto
    from rec[OF that(1) this] show ?thesis .
  qed
  have same: "(\<exists>st'. simulate c Z' = Inr st' \<and> price st' = price st \<and> opex st' = opex st)
              \<and> run c Z' = run c Z"
    if agree: "\<forall>i<2 * n_sim c * (T c - 1). Z' i = Z i" for Z'
  proof -
    from simulate_total[OF assms, of Z'] obtain st' where
      sim': "simulate c Z' = Inr st'"
      and shp': "shape (n_sim c) (T c) (price st')" "shape (n_sim c) (T c) (opex st')"
      and c0': "\<And>s. s < n_sim c \<Longrightarrow>
                  price st' ! s ! 0 = price_0 c \<and> opex st' ! s ! 0 = opex_0 c"
      and rec': "\<And>s t. s < n_sim c \<Longrightarrow> 1 \<le> t \<and> t \<le> T c - 1 \<Longrightarrow>
                price st' ! s ! t =
                  price_next c (price st' ! s ! (t - 1)) (Z' (2 * n_sim c * (t - 1) + s))
                \<and> opex st' ! s ! t =
                  opex_next c (opex st' ! s ! (t - 1))
                    (Z' (2 * n_sim c * (t - 1) + n_sim c + s))"
      by blast
    have eq: "price st' = price st \<and> opex st' = opex st"
      by (rule paths_determined[OF shp(1) shp'(1) shp(2) shp'(2) c0 c0' rec rec'])
         (use agree in auto)
    then have "run c Z' = run c Z"
      by (simp add: run_def sim sim' cash_flow_cong[of st' st] valuation_cong[of st' st]
          cong: sum.case_cong)
    with sim' eq show ?thesis by blast
  qed
  show ?thesis
    using sim cons order same by blast
qed

theorem draw_order_deterministic_witness:
  "0 < T mine_co \<and> 0 < opex_lr mine_co \<and> 0 < opex_0 mine_co
   \<and> (\<exists>st. simulate mine_co no_shocks = Inr st
         \<and> consumed (rng st) = 18000
         \<and> price st ! 7 ! 3 = price_next mine_co (price st ! 7 ! 2) (no_shocks 4007)
         \<and> opex st ! 7 ! 3 = opex_next mine_co (opex st ! 7 ! 2) (no_shocks 5007))"
proof -
  obtain st where sim: "simulate mine_co no_shocks = Inr st"
    and cons: "consumed (rng st) = 2 * n_sim mine_co * (T mine_co - 1)"
    and ord: "\<forall>s<n_sim mine_co. \<forall>t. 1 \<le> t \<and> t < T mine_co \<longrightarrow>
                price st ! s ! t =
                  price_next mine_co (price st ! s ! (t - 1))
                    (no_shocks (2 * n_sim mine_co * (t - 1) + s))
                \<and> opex st ! s ! t =
                  opex_next mine_co (opex st ! s ! (t - 1))
                    (no_shocks (2 * n_sim mine_co * (t - 1) + n_sim mine_co + s))"
    using draw_order_deterministic[of mine_co no_shocks] by auto
  have "(7::nat) < n_sim mine_co" "1 \<le> (3::nat) \<and> (3::nat) < T mine_co" by simp_all
  with ord have "price st ! 7 ! 3 =
                  price_next mine_co (price st ! 7 ! (3 - 1))
                    (no_shocks (2 * n_sim mine_co * (3 - 1) + 7))
                \<and> opex st ! 7 ! 3 =
                  opex_next mine_co (opex st ! 7 ! (3 - 1))
                    (no_shocks (2 * n_sim mine_co * (3 - 1) + n_sim mine_co + 7))"
    by blast
  then have "price st ! 7 ! 3 = price_next mine_co (price st ! 7 ! 2) (no_shocks 4007)
         \<and> opex st ! 7 ! 3 = opex_next mine_co (opex st ! 7 ! 2) (no_shocks 5007)"
    by simp
  with sim cons show ?thesis by simp
qed

subsection \<open>Cash flows\<close>

lemma length_quant [simp]: "length (quant c) = T c"
  by (simp add: quant_def)

lemma depr_vec_Inr:
  assumes "depr_vec c = Inr dv"
  shows "length (depr_sch c) \<le> T c" "length dv = T c"
    and "i < T c \<Longrightarrow> dv ! i = (if i < length (depr_sch c) then depr_sch c ! i else 0)"
  using assms by (auto simp: depr_vec_def nth_append split: if_splits)

lemma cash_flow_Inr:
  assumes "cash_flow c st = Inr cf"
  obtains dv where "depr_vec c = Inr dv"
    and "rev_gross cf = map (\<lambda>row. map2 (*) row (quant c)) (price st)"
    and "roy cf = map (map (\<lambda>x. x * roy_rate c)) (rev_gross cf)"
    and "rev_net cf = map2 (map2 (-)) (rev_gross cf) (roy cf)"
    and "btcf cf = map2 (map2 (-)) (rev_net cf) (opex st)"
    and "tax cf = map (\<lambda>row. map (\<lambda>x. tax_rate c * x)
                        (map2 (-) row (map (\<lambda>d. capex c * d) dv))) (btcf cf)"
    and "atcf cf = map2 (map2 (-)) (btcf cf) (tax cf)"
  using assms by (auto simp: cash_flow_def Let_def split: sum.splits)

lemma cash_flow_total:
  "length (depr_sch c) \<le> T c \<Longrightarrow> \<exists>cf. cash_flow c st = Inr cf"
  by (simp add: cash_flow_def Let_def depr_vec_def)

lemma cash_flow_cells:
  assumes cf: "cash_flow c st = Inr cf"
    and shp: "shape (n_sim c) (T c) (price st)" "shape (n_sim c) (T c) (opex st)"
    and s: "s < n_sim c" and i: "i < T c"
  shows "rev_gross cf ! s ! i = price st ! s ! i * quant c ! i"
    and "roy cf ! s ! i = rev_gross cf ! s ! i * roy_rate c"
    and "rev_net cf ! s ! i = rev_gross cf ! s ! i - roy cf ! s ! i"
    and "btcf cf ! s ! i = rev_net cf ! s ! i - opex st ! s ! i"
    and "tax cf ! s ! i =
           tax_rate c * (btcf cf ! s ! i
             - capex c * (if i < length (depr_sch c) then depr_sch c ! i else 0))"
    and "atcf cf ! s ! i = btcf cf ! s ! i - tax cf ! s ! i"
proof -
  from cf obtain dv where dv: "depr_vec c = Inr dv"
    and rg: "rev_gross cf = map (\<lambda>row. map2 (*) row (quant c)) (price st)"
    and ro: "roy cf = map (map (\<lambda>x. x * roy_rate c)) (rev_gross cf)"
    and rn: "rev_net cf = map2 (map2 (-)) (rev_gross cf) (roy cf)"
    and bt: "btcf cf = map2 (map2 (-)) (rev_net cf) (opex st)"
    and tx: "tax cf = map (\<lambda>row. map (\<lambda>x. tax_rate c * x)
                        (map2 (-) row (map (\<lambda>d. capex c * d) dv))) (btcf cf)"
    and at: "atcf cf = map2 (map2 (-)) (btcf cf) (tax cf)"
    by (rule cash_flow_Inr)
  note d = depr_vec_Inr[OF dv]
  have lp: "length (price st) = n_sim c" "length (opex st) = n_sim c"
    using shp by (simp_all add: shape_length)
  have rp: "length (price st ! s) = T c" "length (opex st ! s) = T c"
    using shape_row[OF shp(1) s] shape_row[OF shp(2) s] by simp_all
  have lrg: "length (rev_gross cf) = n_sim c" "length (rev_gross cf ! s) = T c"
    using s by (simp_all add: rg lp rp)
  show 1: "rev_gross cf ! s ! i = price st ! s ! i * quant c ! i"
    using s i by (simp add: rg lp rp)
  have lro: "length (roy cf) = n_sim c" "length (roy cf ! s) = T c"
    using s by (simp_all add: ro lrg)
  show 2: "roy cf ! s ! i = rev_gross cf ! s ! i * roy_rate c"
    using s i by (simp add: ro lrg)
  have lrn: "length (rev_net cf) = n_sim c" "length (rev_net cf ! s) = T c"
    using s by (simp_all add: rn lrg lro)
  show 3: "rev_net cf ! s ! i = rev_gross cf ! s ! i - roy cf ! s ! i"
    using s i by (simp add: rn lrg lro)
  have lbt: "length (btcf cf) = n_sim c" "length (btcf cf ! s) = T c"
    using s by (simp_all add: bt lrn lp rp)
  show 4: "btcf cf ! s ! i = rev_net cf ! s ! i - opex st ! s ! i"
    using s i by (simp add: bt lrn lp rp)
  have ltx: "length (tax cf) = n_sim c" "length (tax cf ! s) = T c"
    using s by (simp_all add: tx lbt d(2))
  show 5: "tax cf ! s ! i =
           tax_rate c * (btcf cf ! s ! i
             - capex c * (if i < length (depr_sch c) then depr_sch c ! i else 0))"
    using s i d(3)[OF i] by (simp add: tx lbt d(2))
  show "atcf cf ! s ! i = btcf cf ! s ! i - tax cf ! s ! i"
    using s i by (simp add: at lbt ltx)
qed

lemma cash_flow_shape:
  assumes cf: "cash_flow c st = Inr cf"
    and shp: "shape (n_sim c) (T c) (price st)" "shape (n_sim c) (T c) (opex st)"
  shows "shape (n_sim c) (T c) (btcf cf)" "shape (n_sim c) (T c) (tax cf)"
    "shape (n_sim c) (T c) (atcf cf)"
proof -
  from cf obtain dv where dv: "depr_vec c = Inr dv"
    and rg: "rev_gross cf = map (\<lambda>row. map2 (*) row (quant c)) (price st)"
    and ro: "roy cf = map (map (\<lambda>x. x * roy_rate c)) (rev_gross cf)"
    and rn: "rev_net cf = map2 (map2 (-)) (rev_gross cf) (roy cf)"
    and bt: "btcf cf = map2 (map2 (-)) (rev_net cf) (opex st)"
    and tx: "tax cf = map (\<lambda>row. map (\<lambda>x. tax_rate c * x)
                        (map2 (-) row (map (\<lambda>d. capex c * d) dv))) (btcf cf)"
    and at: "atcf cf = map2 (map2 (-)) (btcf cf) (tax cf)"
    by (rule cash_flow_Inr)
  note d = depr_vec_Inr[OF dv]
  have lp: "length (price st) = n_sim c" "length (opex st) = n_sim c"
    using shp by (simp_all add: shape_length)
  have rp: "length (price st ! s) = T c" "length (opex st ! s) = T c" if "s < n_sim c" for s
    using shape_row[OF shp(1) that] shape_row[OF shp(2) that] by simp_all
  show b: "shape (n_sim c) (T c) (btcf cf)"
    by (rule shapeI) (simp_all add: bt rn ro rg lp rp)
  show t: "shape (n_sim c) (T c) (tax cf)"
    by (rule shapeI) (simp_all add: tx shape_length[OF b] shape_row[OF b] d(2))
  show "shape (n_sim c) (T c) (atcf cf)"
    by (rule shapeI)
       (simp_all add: at shape_length[OF b] shape_row[OF b] shape_length[OF t] shape_row[OF t])
qed

lemma quant_two_period: "quant two_period = [10, 1]"
  by (simp add: quant_def two_period_def mine_co_def upt_rec[of 0] upt_rec[of 1] numeral_2_eq_2)

lemma two_period_simps [simp]:
  "T two_period = 2" "n_sim two_period = 3" "buy_year two_period = 1"
  "buyout two_period = 100" "r two_period = 0.05" "capex two_period = 1250"
  "tax_rate two_period = 0.21" "roy_rate two_period = 0.125" "depr_sch two_period = [0.5]"
  by (simp_all add: two_period_def mine_co_def)

lemma two_period_shape:
  "shape (n_sim two_period) (T two_period) (price two_period_paths)"
  "shape (n_sim two_period) (T two_period) (opex two_period_paths)"
  by (simp_all add: shape_def two_period_paths_def)

lemma depr_vec_two_period: "depr_vec two_period = Inr [0.5, 0]"
  by (simp add: depr_vec_def numeral_2_eq_2)

lemma cash_flow_two_period:
  "cash_flow two_period two_period_paths =
     Inr \<lparr>rev_gross = [[500, 40], [500, 60], [500, 55]],
          roy = [[62.5, 5], [62.5, 7.5], [62.5, 6.875]],
          rev_net = [[437.5, 35], [437.5, 52.5], [437.5, 48.125]],
          btcf = [[412.5, 5], [412.5, 32.5], [412.5, 20.125]],
          tax = [[-44.625, 1.05], [-44.625, 6.825], [-44.625, 4.22625]],
          atcf = [[457.125, 3.95], [457.125, 25.675], [457.125, 15.89875]]\<rparr>"
  by (simp add: cash_flow_def quant_two_period depr_vec_two_period Let_def)
     (simp add: two_period_paths_def)

text \<open>
  Claim C7: for every simulation \<open>s\<close> and period \<open>i\<close>, tax is the tax rate times
  (before-tax cash flow minus CAPEX times the depreciation fraction of the period), the
  fraction being the \<open>i\<close>-th schedule entry inside the schedule and 0 after it, with no
  floor or cap; and after-tax cash flow is before-tax cash flow minus tax.
\<close>

theorem tax_and_after_tax:
  assumes "cash_flow c st = Inr cf"
    and "shape (n_sim c) (T c) (price st)" "shape (n_sim c) (T c) (opex st)"
    and "s < n_sim c" "i < T c"
  shows "tax cf ! s ! i =
           tax_rate c * (btcf cf ! s ! i
             - capex c * (if i < length (depr_sch c) then depr_sch c ! i else 0))
         \<and> atcf cf ! s ! i = btcf cf ! s ! i - tax cf ! s ! i"
  using cash_flow_cells(5,6)[OF assms] by simp

text \<open>
  In the small instance the tax of period 0 is negative (the depreciation, 625, exceeds
  the before-tax cash flow, 412.5), and period 1 lies after the schedule.
\<close>

theorem tax_and_after_tax_witness:
  "(\<exists>cf. cash_flow two_period two_period_paths = Inr cf
      \<and> shape (n_sim two_period) (T two_period) (price two_period_paths)
      \<and> shape (n_sim two_period) (T two_period) (opex two_period_paths)
      \<and> (0::nat) < n_sim two_period \<and> (0::nat) < T two_period
      \<and> tax cf ! 0 ! 0 = 0.21 * (btcf cf ! 0 ! 0 - 1250 * 0.5)
      \<and> tax cf ! 0 ! 0 = - 44.625 \<and> tax cf ! 0 ! 0 < 0
      \<and> atcf cf ! 0 ! 0 = btcf cf ! 0 ! 0 - tax cf ! 0 ! 0
      \<and> atcf cf ! 0 ! 0 = 457.125)"
proof -
  let ?cf = "\<lparr>rev_gross = [[500, 40], [500, 60], [500, 55]],
          roy = [[62.5, 5], [62.5, 7.5], [62.5, 6.875]],
          rev_net = [[437.5, 35], [437.5, 52.5], [437.5, 48.125]],
          btcf = [[412.5, 5], [412.5, 32.5], [412.5, 20.125]],
          tax = [[-44.625, 1.05], [-44.625, 6.825], [-44.625, 4.22625]],
          atcf = [[457.125, 3.95], [457.125, 25.675], [457.125, 15.89875::real]]\<rparr>"
  have "tax ?cf ! 0 ! 0 =
           tax_rate two_period * (btcf ?cf ! 0 ! 0
             - capex two_period
                 * (if 0 < length (depr_sch two_period) then depr_sch two_period ! 0 else 0))
         \<and> atcf ?cf ! 0 ! 0 = btcf ?cf ! 0 ! 0 - tax ?cf ! 0 ! 0"
    by (rule tax_and_after_tax[OF cash_flow_two_period two_period_shape]) simp_all
  then show ?thesis
    using two_period_shape by (simp add: cash_flow_two_period)
qed

subsection \<open>Discounting, the regression and the valuation\<close>

lemma dis_fact_Inr:
  assumes "dis_fact c = Inr d"
  shows "length d = T c"
    and "i < T c \<Longrightarrow> d ! i = (1 + r c) powi (- int i - 1)"
    and "0 < T c \<Longrightarrow> 1 + r c \<noteq> 0"
  using assms by (auto simp: dis_fact_def split: if_splits)

lemma dis_fact_total: "1 + r c \<noteq> 0 \<Longrightarrow> \<exists>d. dis_fact c = Inr d"
  by (simp add: dis_fact_def)

lemma sum_list_map2_nth:
  assumes "length xs = n" "length ys = n"
  shows "sum_list (map2 f xs ys) = (\<Sum>i<n. f (xs ! i) (ys ! i))"
proof -
  have "sum_list (map2 f xs ys) = (\<Sum>i = 0..<length (map2 f xs ys). map2 f xs ys ! i)"
    by (rule sum_list_sum_nth)
  also have "\<dots> = (\<Sum>i = 0..<n. f (xs ! i) (ys ! i))"
    using assms by (intro sum.cong) simp_all
  finally show ?thesis by (simp add: atLeast0LessThan)
qed

lemma sum_list_take_drop:
  "sum_list (map2 f (take b xs) (take b ys)) + sum_list (map2 f (drop b xs) (drop b ys))
     = (sum_list (map2 f xs ys) :: real)"
proof -
  have "map2 f xs ys = map2 f (take b xs) (take b ys) @ map2 f (drop b xs) (drop b ys)"
    by (simp add: take_zip[symmetric] drop_zip[symmetric] take_map[symmetric]
        drop_map[symmetric])
  then show ?thesis by (metis sum_list_append)
qed

lemma sum_list_map2_take:
  assumes "length xs = n" "length ys = n" "b \<le> n"
  shows "sum_list (map2 f (take b xs) (take b ys)) = (\<Sum>i<b. f (xs ! i) (ys ! i))"
proof -
  have "sum_list (map2 f (take b xs) (take b ys))
          = (\<Sum>i<b. f (take b xs ! i) (take b ys ! i))"
    by (rule sum_list_map2_nth) (use assms in simp_all)
  then show ?thesis by simp
qed

lemma sum_list_map2_drop:
  fixes f :: "real \<Rightarrow> real \<Rightarrow> real"
  assumes "length xs = n" "length ys = n" "b \<le> n"
  shows "sum_list (map2 f (drop b xs) (drop b ys)) = (\<Sum>i = b..<n. f (xs ! i) (ys ! i))"
proof -
  have "(\<Sum>i<n. f (xs ! i) (ys ! i))
          = (\<Sum>i<b. f (xs ! i) (ys ! i)) + (\<Sum>i = b..<n. f (xs ! i) (ys ! i))"
    using assms(3) by (simp add: lessThan_atLeast0 sum.atLeastLessThan_concat)
  moreover have "sum_list (map2 f (take b xs) (take b ys))
                  + sum_list (map2 f (drop b xs) (drop b ys))
                 = (\<Sum>i<n. f (xs ! i) (ys ! i))"
    by (simp add: sum_list_take_drop sum_list_map2_nth[OF assms(1,2)])
  ultimately show ?thesis
    using sum_list_map2_take[OF assms, of f] by simp
qed

lemma sum_list_affine:
  "sum_list (map (\<lambda>p. fst p * a + snd p * b + k) X)
     = sum_list (map fst X) * a + sum_list (map snd X) * b + real (length X) * (k::real)"
  by (induction X) (simp_all add: algebra_simps)

lemma fit_Inr:
  assumes "fit X y = Inr m"
  shows "0 < length X" "length X = length y"
    and "intercept m
           = mean y - (mean (map fst X) * fst (coef m) + mean (map snd X) * snd (coef m))"
  using assms by (auto simp: fit_def Let_def split: if_splits)

lemma fit_total: "0 < length X \<Longrightarrow> length X = length y \<Longrightarrow> \<exists>m. fit X y = Inr m"
  by (simp add: fit_def Let_def)

lemma length_predict [simp]: "length (predict m X) = length X"
  by (simp add: predict_def)

lemma predict_nth:
  "s < length X \<Longrightarrow>
     predict m X ! s = fst (X ! s) * fst (coef m) + snd (X ! s) * snd (coef m) + intercept m"
  by (simp add: predict_def)

text \<open>A least-squares fit with an intercept reproduces the mean of its target.\<close>

lemma fit_mean:
  assumes "fit X y = Inr m"
  shows "mean (predict m X) = mean y"
proof -
  note f = fit_Inr[OF assms]
  let ?n = "real (length X)"
  have n: "?n \<noteq> 0" using f(1) by simp
  have "sum_list (predict m X)
          = sum_list (map fst X) * fst (coef m) + sum_list (map snd X) * snd (coef m)
            + ?n * intercept m"
    by (simp add: predict_def sum_list_affine)
  also have "\<dots> = sum_list y"
    using n f(2) by (simp add: f(3) mean_def field_simps)
  finally show ?thesis
    using f(2) by (simp add: mean_def)
qed

lemma mean_add:
  assumes "length xs = length ys"
  shows "mean (map2 (+) xs ys) = mean xs + mean ys"
proof -
  have "sum_list (map2 (+) xs ys) = sum_list xs + (sum_list ys :: real)"
    using assms by (induction xs ys rule: list_induct2) simp_all
  then show ?thesis using assms by (simp add: mean_def add_divide_distrib)
qed

lemma mean_nth: "length xs = n \<Longrightarrow> mean xs = (\<Sum>s<n. xs ! s) / real n"
  by (auto simp: mean_def sum_list_sum_nth atLeast0LessThan)

lemma mean_mono:
  assumes "length xs = length ys" "\<And>i. i < length xs \<Longrightarrow> xs ! i \<le> ys ! i"
  shows "mean xs \<le> mean ys"
proof -
  have "sum_list xs \<le> sum_list ys"
    by (rule sum_list_mono2) (use assms in auto)
  then show ?thesis using assms(1) by (simp add: mean_def divide_right_mono)
qed

lemma valuation_Inr:
  assumes "valuation c st a = Inr res"
  obtains d where "dis_fact c = Inr d" and "buy_year c < T c"
    and "npv res = map (\<lambda>row. sum_list (map2 (*) row d)) a"
    and "npv_cont res = map (\<lambda>row. sum_list (map2 (*) (drop (buy_year c) row)
                                                 (drop (buy_year c) d))) a"
    and "fit (zip (col (price st) (buy_year c)) (col (opex st) (buy_year c))) (npv_cont res)
           = Inr (regr res)"
    and "cv_pred res
           = predict (regr res) (zip (col (price st) (buy_year c)) (col (opex st) (buy_year c)))"
    and "max_val res = map (\<lambda>v. max v (buyout c)) (cv_pred res)"
    and "enpv_w_opt res
           = mean (map (\<lambda>row. sum_list (map2 (*) (take (buy_year c) row)
                                                   (take (buy_year c) d))) a)
             + mean (max_val res) - capex c"
    and "enpv_wo_opt res = mean (npv res) - capex c"
    and "opt_val res = enpv_w_opt res - enpv_wo_opt res"
  using assms
  by (auto simp: valuation_def Let_def split: sum.splits if_splits)

lemma valuation_total:
  assumes "1 + r c \<noteq> 0" "buy_year c < T c" "0 < length a"
    and "length (price st) = length a" "length (opex st) = length a"
  shows "\<exists>res. valuation c st a = Inr res"
proof -
  from dis_fact_total[OF assms(1)] obtain d where d: "dis_fact c = Inr d" by blast
  let ?X = "zip (col (price st) (buy_year c)) (col (opex st) (buy_year c))"
  let ?y = "map (\<lambda>row. sum_list (map2 (*) (drop (buy_year c) row) (drop (buy_year c) d))) a"
  have "\<exists>m. fit ?X ?y = Inr m"
    by (rule fit_total) (use assms(3-5) in simp_all)
  then obtain m where "fit ?X ?y = Inr m" by blast
  then show ?thesis
    using d assms(2) by (simp add: valuation_def Let_def)
qed

text \<open>
  The option value is the mean of the floored predictions minus the mean of the
  predictions: the cash flows before the decision cancel, and the fit reproduces the
  mean of the continuation values.
\<close>

lemma valuation_lengths:
  assumes "valuation c st a = Inr res"
  shows "0 < length a" "length (cv_pred res) = length a" "length (npv_cont res) = length a"
    "length (npv res) = length a" "length (max_val res) = length a"
proof -
  from assms obtain d where
    nc: "npv_cont res = map (\<lambda>row. sum_list (map2 (*) (drop (buy_year c) row)
                                                 (drop (buy_year c) d))) a"
    and nv: "npv res = map (\<lambda>row. sum_list (map2 (*) row d)) a"
    and ft: "fit (zip (col (price st) (buy_year c)) (col (opex st) (buy_year c))) (npv_cont res)
           = Inr (regr res)"
    and cv: "cv_pred res
           = predict (regr res) (zip (col (price st) (buy_year c)) (col (opex st) (buy_year c)))"
    and mv: "max_val res = map (\<lambda>v. max v (buyout c)) (cv_pred res)"
    by (rule valuation_Inr)
  note f = fit_Inr(1,2)[OF ft]
  show 3: "length (npv_cont res) = length a" by (simp add: nc)
  show 2: "length (cv_pred res) = length a" using f(2) 3 by (simp add: cv)
  show "0 < length a" using f(1) unfolding f(2) 3 .
  show "length (npv res) = length a" by (simp add: nv)
  show "length (max_val res) = length a" using 2 by (simp add: mv)
qed

lemma valuation_mean_pred:
  assumes "valuation c st a = Inr res"
  shows "mean (cv_pred res) = mean (npv_cont res)"
proof -
  from assms obtain d :: "real list" where
    ft: "fit (zip (col (price st) (buy_year c)) (col (opex st) (buy_year c))) (npv_cont res)
           = Inr (regr res)"
    and cv: "cv_pred res
           = predict (regr res) (zip (col (price st) (buy_year c)) (col (opex st) (buy_year c)))"
    by (rule valuation_Inr)
  show ?thesis unfolding cv by (rule fit_mean[OF ft])
qed

lemma valuation_opt_val:
  assumes "valuation c st a = Inr res"
  shows "opt_val res = mean (max_val res) - mean (cv_pred res)"
proof -
  from assms obtain d where
    nv: "npv res = map (\<lambda>row. sum_list (map2 (*) row d)) a"
    and nc: "npv_cont res = map (\<lambda>row. sum_list (map2 (*) (drop (buy_year c) row)
                                                 (drop (buy_year c) d))) a"
    and w: "enpv_w_opt res
           = mean (map (\<lambda>row. sum_list (map2 (*) (take (buy_year c) row)
                                                   (take (buy_year c) d))) a)
             + mean (max_val res) - capex c"
    and wo: "enpv_wo_opt res = mean (npv res) - capex c"
    and ov: "opt_val res = enpv_w_opt res - enpv_wo_opt res"
    by (rule valuation_Inr)
  let ?pre = "map (\<lambda>row. sum_list (map2 (*) (take (buy_year c) row) (take (buy_year c) d))) a"
  have "npv res = map2 (+) ?pre (npv_cont res)"
    unfolding nv nc
    by (rule nth_equalityI) (simp_all add: sum_list_take_drop)
  then have "mean (npv res) = mean ?pre + mean (npv_cont res)"
    by (simp add: mean_add nc)
  then show ?thesis
    using valuation_mean_pred[OF assms] by (simp add: ov w wo)
qed

lemma run_total:
  assumes "0 < T c" "0 < opex_lr c" "0 < opex_0 c" "length (depr_sch c) \<le> T c"
    and "1 + r c \<noteq> 0" "buy_year c < T c" "0 < n_sim c"
  shows "\<exists>res. run c Z = Inr res"
proof -
  from simulate_total[OF assms(1-3), of Z] obtain st where
    sim: "simulate c Z = Inr st"
    and shp: "shape (n_sim c) (T c) (price st)" "shape (n_sim c) (T c) (opex st)"
    by blast
  from cash_flow_total[OF assms(4), of st] obtain cf where cf: "cash_flow c st = Inr cf"
    by blast
  have la: "length (atcf cf) = n_sim c"
    using cash_flow_shape(3)[OF cf shp] by (rule shape_length)
  have "\<exists>res. valuation c st (atcf cf) = Inr res"
    by (rule valuation_total[OF assms(5,6)])
       (use la assms(7) shp in \<open>simp_all add: shape_length\<close>)
  then show ?thesis by (simp add: run_def sim cf)
qed

lemma run_Inr:
  assumes "run c Z = Inr res"
  obtains st cf where "simulate c Z = Inr st" "cash_flow c st = Inr cf"
    "valuation c st (atcf cf) = Inr res"
  using assms by (auto simp: run_def split: sum.splits)

lemma valuation_opt_val_nonneg:
  assumes "valuation c st a = Inr res"
  shows "0 \<le> opt_val res"
proof -
  from assms obtain d :: "real list" where
    mv: "max_val res = map (\<lambda>v. max v (buyout c)) (cv_pred res)"
    by (rule valuation_Inr)
  have "mean (cv_pred res) \<le> mean (max_val res)"
    by (rule mean_mono) (simp_all add: mv)
  then show ?thesis by (simp add: valuation_opt_val[OF assms])
qed

text \<open>
  Claim C2: for every input on which the script returns (any buyout, any paths), the
  reported option value is not negative, because the fit with an intercept gives the
  predictions the mean of the continuation values and the floor only raises them.
  The first part is for the valuation of any paths and cash flows, the second for the
  whole script on any stream of draws.
\<close>

theorem opt_val_nonneg:
  "(valuation c st a = Inr res \<longrightarrow> 0 \<le> opt_val res)
   \<and> (run c Z = Inr res' \<longrightarrow> 0 \<le> opt_val res')"
proof (intro conjI impI)
  assume "valuation c st a = Inr res"
  then show "0 \<le> opt_val res" by (rule valuation_opt_val_nonneg)
next
  assume "run c Z = Inr res'"
  then obtain st' cf where "simulate c Z = Inr st'" "cash_flow c st' = Inr cf"
    and v: "valuation c st' (atcf cf) = Inr res'"
    by (rule run_Inr)
  from v show "0 \<le> opt_val res'" by (rule valuation_opt_val_nonneg)
qed

theorem opt_val_nonneg_witness:
  "\<exists>res. run mine_co no_shocks = Inr res \<and> 0 \<le> opt_val res"
proof -
  have "\<exists>res. run mine_co no_shocks = Inr res"
    by (rule run_total) simp_all
  then obtain res where res: "run mine_co no_shocks = Inr res" by blast
  with opt_val_nonneg[of mine_co undefined undefined undefined no_shocks res]
  show ?thesis by blast
qed

text \<open>
  Claim C1: with a buyout of 0 and predicted continuation values that are all at least
  0, the expected NPV with the option equals the expected NPV without it, and the
  reported option value is 0.
\<close>

theorem zero_buyout_no_value:
  assumes "valuation c st a = Inr res"
    and "buyout c = 0"
    and "\<forall>v\<in>set (cv_pred res). 0 \<le> v"
  shows "enpv_w_opt res = enpv_wo_opt res \<and> opt_val res = 0"
proof -
  from assms(1) obtain d :: "real list" where
    mv: "max_val res = map (\<lambda>v. max v (buyout c)) (cv_pred res)"
    and ov: "opt_val res = enpv_w_opt res - enpv_wo_opt res"
    by (rule valuation_Inr)
  have "map (\<lambda>v. max v 0) (cv_pred res) = cv_pred res"
    by (rule map_idI) (use assms(3) in \<open>auto simp: max_def\<close>)
  then have "max_val res = cv_pred res"
    by (simp add: mv assms(2))
  then have "opt_val res = 0"
    by (simp add: valuation_opt_val[OF assms(1)])
  then show ?thesis using ov by simp
qed

lemma dis_fact_two_period: "dis_fact two_period = Inr [20 / 21, 400 / 441]"
  by (simp add: dis_fact_def upt_rec[of 0] upt_rec[of 1] numeral_2_eq_2 power_int_minus
      power2_eq_square)

lemma dis_fact_two_period0: "dis_fact (two_period\<lparr>buyout := 0\<rparr>) = Inr [20 / 21, 400 / 441]"
  using dis_fact_two_period by (simp add: dis_fact_def)

lemma valuation_two_period_zero:
  "valuation (two_period\<lparr>buyout := 0\<rparr>) two_period_paths
      [[457.125, 3.95], [457.125, 25.675], [457.125, 15.89875]]
   = Inr \<lparr>npv = [387145 / 882, 404525 / 882, 4048 / 9],
        npv_cont = [1580 / 441, 10270 / 441, 1817 / 126],
        regr = \<lparr>coef = (79 / 126, - (316 / 441)), intercept = 0\<rparr>,
        cv_pred = [1580 / 441, 10270 / 441, 1817 / 126],
        max_val = [1580 / 441, 10270 / 441, 1817 / 126],
        enpv_w_opt = - (1059563 / 1323), enpv_wo_opt = - (1059563 / 1323),
        opt_val = 0\<rparr>"
  by (simp add: valuation_def dis_fact_two_period0 Let_def two_period_paths_def col_def
      fit_def predict_def mean_def)

theorem zero_buyout_no_value_witness:
  "\<exists>res. valuation (two_period\<lparr>buyout := 0\<rparr>) two_period_paths
             [[457.125, 3.95], [457.125, 25.675], [457.125, 15.89875]] = Inr res
      \<and> buyout (two_period\<lparr>buyout := 0\<rparr>) = 0
      \<and> cv_pred res = [1580 / 441, 10270 / 441, 1817 / 126]
      \<and> enpv_w_opt res = enpv_wo_opt res \<and> opt_val res = 0
      \<and> enpv_wo_opt res = - (1059563 / 1323)"
proof -
  let ?res = "\<lparr>npv = [387145 / 882, 404525 / 882, 4048 / 9],
        npv_cont = [1580 / 441, 10270 / 441, 1817 / 126],
        regr = \<lparr>coef = (79 / 126, - (316 / 441)), intercept = 0\<rparr>,
        cv_pred = [1580 / 441, 10270 / 441, 1817 / 126],
        max_val = [1580 / 441, 10270 / 441, 1817 / 126],
        enpv_w_opt = - (1059563 / 1323), enpv_wo_opt = - (1059563 / 1323),
        opt_val = 0 :: real\<rparr>"
  have b: "buyout (two_period\<lparr>buyout := 0\<rparr>) = 0" by simp
  have p: "\<forall>v\<in>set (cv_pred ?res). 0 \<le> v" by simp
  note main = zero_buyout_no_value[OF valuation_two_period_zero b p]
  have vals: "cv_pred ?res = [1580 / 441, 10270 / 441, 1817 / 126]"
    "enpv_wo_opt ?res = - (1059563 / 1323)"
    by simp_all
  show ?thesis
    using valuation_two_period_zero b main vals by blast
qed

lemma powi_discount:
  fixes x :: real
  assumes "x \<noteq> 0"
  shows "x powi (- int i - 1) * x ^ (i + 1) = 1"
proof -
  have "- int i - 1 = - int (Suc i)" by simp
  then have e: "x powi (- int i - 1) = inverse (x ^ Suc i)"
    by (simp only: power_int_minus power_int_of_nat)
  have "x ^ Suc i \<noteq> 0" using assms by simp
  then have "inverse (x ^ Suc i) * x ^ Suc i = 1" by (rule left_inverse)
  then show ?thesis unfolding e Suc_eq_plus1 .
qed

lemma valuation_cells:
  assumes v: "valuation c st a = Inr res"
    and shp: "shape (n_sim c) (T c) a"
    and s: "s < n_sim c"
  shows "npv res ! s = (\<Sum>i<T c. a ! s ! i * (1 + r c) powi (- int i - 1))"
    and "npv_cont res ! s
           = (\<Sum>i = buy_year c..<T c. a ! s ! i * (1 + r c) powi (- int i - 1))"
    and "max_val res ! s = max (cv_pred res ! s) (buyout c)"
proof -
  from v obtain d where d: "dis_fact c = Inr d" and b: "buy_year c < T c"
    and nv: "npv res = map (\<lambda>row. sum_list (map2 (*) row d)) a"
    and nc: "npv_cont res = map (\<lambda>row. sum_list (map2 (*) (drop (buy_year c) row)
                                                 (drop (buy_year c) d))) a"
    and mv: "max_val res = map (\<lambda>v. max v (buyout c)) (cv_pred res)"
    by (rule valuation_Inr)
  note df = dis_fact_Inr(1,2)[OF d]
  have la: "length a = n_sim c" and ra: "length (a ! s) = T c"
    using shape_length[OF shp] shape_row[OF shp s] by simp_all
  have "npv res ! s = (\<Sum>i<T c. a ! s ! i * d ! i)"
    using s la by (simp add: nv sum_list_map2_nth[OF ra df(1)])
  also have "\<dots> = (\<Sum>i<T c. a ! s ! i * (1 + r c) powi (- int i - 1))"
    by (rule sum.cong) (simp_all add: df(2))
  finally show "npv res ! s = (\<Sum>i<T c. a ! s ! i * (1 + r c) powi (- int i - 1))" .
  have bl: "buy_year c \<le> T c" using b by simp
  have "npv_cont res ! s = (\<Sum>i = buy_year c..<T c. a ! s ! i * d ! i)"
    using s la by (simp add: nc sum_list_map2_drop[OF ra df(1) bl])
  also have "\<dots> = (\<Sum>i = buy_year c..<T c. a ! s ! i * (1 + r c) powi (- int i - 1))"
    by (rule sum.cong) (simp_all add: df(2))
  finally show "npv_cont res ! s
           = (\<Sum>i = buy_year c..<T c. a ! s ! i * (1 + r c) powi (- int i - 1))" .
  have "s < length (cv_pred res)"
    using valuation_lengths(2)[OF v] la s by simp
  then show "max_val res ! s = max (cv_pred res ! s) (buyout c)"
    by (simp add: mv)
qed

lemma valuation_pre:
  assumes v: "valuation c st a = Inr res"
    and shp: "shape (n_sim c) (T c) a"
  shows "enpv_w_opt res
           = (\<Sum>s<n_sim c. \<Sum>i<buy_year c. a ! s ! i * (1 + r c) powi (- int i - 1))
               / real (n_sim c)
             + mean (max_val res) - capex c"
proof -
  from v obtain d where d: "dis_fact c = Inr d" and b: "buy_year c < T c"
    and w: "enpv_w_opt res
           = mean (map (\<lambda>row. sum_list (map2 (*) (take (buy_year c) row)
                                                   (take (buy_year c) d))) a)
             + mean (max_val res) - capex c"
    by (rule valuation_Inr)
  note df = dis_fact_Inr(1,2)[OF d]
  let ?pre = "map (\<lambda>row. sum_list (map2 (*) (take (buy_year c) row) (take (buy_year c) d))) a"
  have la: "length a = n_sim c" using shape_length[OF shp] .
  have bl: "buy_year c \<le> T c" using b by simp
  have cell: "?pre ! s = (\<Sum>i<buy_year c. a ! s ! i * (1 + r c) powi (- int i - 1))"
    if s: "s < n_sim c" for s
  proof -
    have ra: "length (a ! s) = T c" using shape_row[OF shp s] .
    have "?pre ! s = (\<Sum>i<buy_year c. a ! s ! i * d ! i)"
      using s la by (simp add: sum_list_map2_take[OF ra df(1) bl])
    also have "\<dots> = (\<Sum>i<buy_year c. a ! s ! i * (1 + r c) powi (- int i - 1))"
      by (rule sum.cong) (use b in \<open>simp_all add: df(2)\<close>)
    finally show ?thesis .
  qed
  have "mean ?pre = (\<Sum>s<n_sim c. ?pre ! s) / real (n_sim c)"
    by (rule mean_nth) (simp add: la)
  also have "(\<Sum>s<n_sim c. ?pre ! s)
               = (\<Sum>s<n_sim c. \<Sum>i<buy_year c. a ! s ! i * (1 + r c) powi (- int i - 1))"
    by (rule sum.cong) (simp_all only: cell lessThan_iff)
  finally show ?thesis by (simp only: w)
qed

lemma four_sims_simps [simp]:
  "T four_sims = 2" "n_sim four_sims = 4" "buy_year four_sims = 1"
  "buyout four_sims = 20" "r four_sims = 0.05" "capex four_sims = 1250"
  by (simp_all add: four_sims_def)

lemma dis_fact_four_sims: "dis_fact four_sims = Inr [20 / 21, 400 / 441]"
  using dis_fact_two_period by (simp add: dis_fact_def)

lemma four_sims_shape:
  "shape (n_sim four_sims) (T four_sims) four_sims_atcf"
  "shape (n_sim four_sims) (T four_sims) (price four_sims_paths)"
  "shape (n_sim four_sims) (T four_sims) (opex four_sims_paths)"
  by (simp_all add: shape_def four_sims_atcf_def four_sims_paths_def)

lemma two_period_atcf_shape: "shape (n_sim two_period) (T two_period) two_period_atcf"
  by (simp add: shape_def two_period_atcf_def)

lemma valuation_four_sims:
  "valuation four_sims four_sims_paths four_sims_atcf
   = Inr \<lparr>npv = [190600 / 441, 199000 / 441, 195400 / 441, 71000 / 147],
        npv_cont = [1600 / 441, 10000 / 441, 6400 / 441, 8000 / 147],
        regr = \<lparr>coef = (- (6280 / 4851), - (21800 / 4851)), intercept = 974500 / 4851\<rparr>,
        cv_pred = [100 / 7, 100 / 3, 1700 / 441, 19300 / 441],
        max_val = [20, 100 / 3, 20, 19300 / 441],
        enpv_w_opt = - (349340 / 441), enpv_wo_opt = - (16750 / 21),
        opt_val = 2410 / 441\<rparr>"
  by (simp add: valuation_def dis_fact_four_sims Let_def four_sims_paths_def
      four_sims_atcf_def col_def fit_def predict_def mean_def)

lemma valuation_two_period:
  "valuation two_period two_period_paths two_period_atcf
   = Inr \<lparr>npv = [387145 / 882, 404525 / 882, 4048 / 9],
        npv_cont = [1580 / 441, 10270 / 441, 1817 / 126],
        regr = \<lparr>coef = (79 / 126, - (316 / 441)), intercept = 0\<rparr>,
        cv_pred = [1580 / 441, 10270 / 441, 1817 / 126],
        max_val = [100, 100, 100], enpv_w_opt = - (10005 / 14),
        enpv_wo_opt = - (1059563 / 1323), opt_val = 228181 / 2646\<rparr>"
  by (simp add: valuation_def dis_fact_two_period Let_def two_period_paths_def
      two_period_atcf_def col_def fit_def predict_def mean_def)

text \<open>
  Claim C6: the discount factor of the 0-indexed period \<open>i\<close> is
  \<open>(1 + r)\<close> to the power \<open>-(i + 1)\<close> (so that it undoes \<open>i + 1\<close> periods of
  growth at rate \<open>r\<close>); the NPV of a simulation is the sum over all \<open>T\<close> periods of
  after-tax cash flow times discount factor; its continuation value is the same sum over
  the periods from \<open>buy_year\<close> on, \<open>buy_year\<close> included.
\<close>

theorem discounting:
  assumes "valuation c st a = Inr res"
    and "shape (n_sim c) (T c) a"
    and "s < n_sim c" "i < T c"
  shows "\<exists>d. dis_fact c = Inr d \<and> length d = T c
           \<and> d ! i = (1 + r c) powi (- (int i + 1))
           \<and> d ! i * (1 + r c) ^ (i + 1) = 1
           \<and> npv res ! s = (\<Sum>j<T c. a ! s ! j * d ! j)
           \<and> npv_cont res ! s = (\<Sum>j = buy_year c..<T c. a ! s ! j * d ! j)"
proof -
  from assms(1) obtain d where d: "dis_fact c = Inr d"
    by (rule valuation_Inr)
  have T: "0 < T c" using assms(4) by simp
  note df = dis_fact_Inr[OF d]
  have e: "- (int i + 1) = - int i - 1" by simp
  have di: "d ! i = (1 + r c) powi (- (int i + 1))"
    unfolding e by (rule df(2)[OF assms(4)])
  have one: "d ! i * (1 + r c) ^ (i + 1) = 1"
    unfolding df(2)[OF assms(4)] by (rule powi_discount[OF df(3)[OF T]])
  have "npv res ! s = (\<Sum>j<T c. a ! s ! j * (1 + r c) powi (- int j - 1))"
    by (rule valuation_cells(1)[OF assms(1-3)])
  also have "\<dots> = (\<Sum>j<T c. a ! s ! j * d ! j)"
    by (rule sum.cong) (simp_all add: df(2))
  finally have nv: "npv res ! s = (\<Sum>j<T c. a ! s ! j * d ! j)" .
  have "npv_cont res ! s
          = (\<Sum>j = buy_year c..<T c. a ! s ! j * (1 + r c) powi (- int j - 1))"
    by (rule valuation_cells(2)[OF assms(1-3)])
  also have "\<dots> = (\<Sum>j = buy_year c..<T c. a ! s ! j * d ! j)"
    by (rule sum.cong) (simp_all add: df(2))
  finally have nc: "npv_cont res ! s = (\<Sum>j = buy_year c..<T c. a ! s ! j * d ! j)" .
  show ?thesis
    using d df(1) di one nv nc by blast
qed

theorem discounting_witness:
  "\<exists>res d. valuation two_period two_period_paths two_period_atcf = Inr res
      \<and> shape (n_sim two_period) (T two_period) two_period_atcf
      \<and> (0::nat) < n_sim two_period \<and> (1::nat) < T two_period
      \<and> dis_fact two_period = Inr d
      \<and> d ! 1 = (1 + r two_period) powi (- (int 1 + 1))
      \<and> d ! 1 * (1 + r two_period) ^ (1 + 1) = 1
      \<and> npv res ! 0 = (\<Sum>j<T two_period. two_period_atcf ! 0 ! j * d ! j)
      \<and> npv_cont res ! 0
           = (\<Sum>j = buy_year two_period..<T two_period. two_period_atcf ! 0 ! j * d ! j)
      \<and> d = [20 / 21, 400 / 441]
      \<and> npv res ! 0 = 387145 / 882 \<and> npv_cont res ! 0 = 1580 / 441"
proof -
  let ?res = "\<lparr>npv = [387145 / 882, 404525 / 882, 4048 / 9],
        npv_cont = [1580 / 441, 10270 / 441, 1817 / 126],
        regr = \<lparr>coef = (79 / 126, - (316 / 441)), intercept = 0\<rparr>,
        cv_pred = [1580 / 441, 10270 / 441, 1817 / 126],
        max_val = [100, 100, 100], enpv_w_opt = - (10005 / 14),
        enpv_wo_opt = - (1059563 / 1323), opt_val = 228181 / 2646 :: real\<rparr>"
  have h: "(0::nat) < n_sim two_period" "(1::nat) < T two_period" by simp_all
  from discounting[OF valuation_two_period two_period_atcf_shape h]
  obtain d where d: "dis_fact two_period = Inr d"
    and rest: "d ! 1 = (1 + r two_period) powi (- (int 1 + 1))"
      "d ! 1 * (1 + r two_period) ^ (1 + 1) = 1"
      "npv ?res ! 0 = (\<Sum>j<T two_period. two_period_atcf ! 0 ! j * d ! j)"
      "npv_cont ?res ! 0
         = (\<Sum>j = buy_year two_period..<T two_period. two_period_atcf ! 0 ! j * d ! j)"
    by blast
  have dv: "d = [20 / 21, 400 / 441]"
    using d by (simp add: dis_fact_two_period)
  have vals: "npv ?res ! 0 = 387145 / 882" "npv_cont ?res ! 0 = 1580 / 441" by simp_all
  show ?thesis
    using valuation_two_period two_period_atcf_shape h d rest dv vals by blast
qed

lemma valuation_pred_cells:
  assumes v: "valuation c st a = Inr res"
    and shp: "shape (n_sim c) (T c) a" "shape (n_sim c) (T c) (price st)"
             "shape (n_sim c) (T c) (opex st)"
    and s: "s < n_sim c"
  shows "cv_pred res ! s
           = price st ! s ! buy_year c * fst (coef (regr res))
             + opex st ! s ! buy_year c * snd (coef (regr res)) + intercept (regr res)"
proof -
  from v obtain d :: "real list" where
    cv: "cv_pred res
           = predict (regr res) (zip (col (price st) (buy_year c)) (col (opex st) (buy_year c)))"
    by (rule valuation_Inr)
  have l: "length (price st) = n_sim c" "length (opex st) = n_sim c"
    using shp(2,3) by (simp_all add: shape_length)
  show ?thesis
    unfolding cv using s l by (simp add: predict_nth)
qed

text \<open>
  Claim C4: the expected NPV with the option is the mean over the simulations of the
  discounted after-tax cash flows of the periods before the decision period, plus the mean
  over the simulations of the maximum of the predicted continuation value and the buyout,
  minus CAPEX; the value that is floored is the prediction of the regression at the
  simulation's price and opex of the decision period, fitted to the realized continuation
  values, not the realized continuation value itself.
\<close>

theorem enpv_with_option:
  assumes "valuation c st a = Inr res"
    and "shape (n_sim c) (T c) a"
    and "shape (n_sim c) (T c) (price st)" "shape (n_sim c) (T c) (opex st)"
  shows "enpv_w_opt res
           = (\<Sum>s<n_sim c. \<Sum>i<buy_year c. a ! s ! i * (1 + r c) powi (- (int i + 1)))
               / real (n_sim c)
             + (\<Sum>s<n_sim c. max (cv_pred res ! s) (buyout c)) / real (n_sim c)
             - capex c
         \<and> (\<forall>s<n_sim c. cv_pred res ! s
               = price st ! s ! buy_year c * fst (coef (regr res))
                 + opex st ! s ! buy_year c * snd (coef (regr res)) + intercept (regr res))
         \<and> fit (zip (col (price st) (buy_year c)) (col (opex st) (buy_year c))) (npv_cont res)
             = Inr (regr res)"
proof -
  from assms(1) obtain d :: "real list" where
    ft: "fit (zip (col (price st) (buy_year c)) (col (opex st) (buy_year c))) (npv_cont res)
           = Inr (regr res)"
    by (rule valuation_Inr)
  have e: "- (int i + 1) = - int i - 1" for i by simp
  have lm: "length (max_val res) = n_sim c"
    using valuation_lengths(5)[OF assms(1)] shape_length[OF assms(2)] by simp
  have "mean (max_val res) = (\<Sum>s<n_sim c. max_val res ! s) / real (n_sim c)"
    by (rule mean_nth[OF lm])
  also have "(\<Sum>s<n_sim c. max_val res ! s)
               = (\<Sum>s<n_sim c. max (cv_pred res ! s) (buyout c))"
    by (rule sum.cong) (simp_all add: valuation_cells(3)[OF assms(1,2)])
  finally have mm: "mean (max_val res)
                      = (\<Sum>s<n_sim c. max (cv_pred res ! s) (buyout c)) / real (n_sim c)" .
  have w: "enpv_w_opt res
           = (\<Sum>s<n_sim c. \<Sum>i<buy_year c. a ! s ! i * (1 + r c) powi (- (int i + 1)))
               / real (n_sim c)
             + (\<Sum>s<n_sim c. max (cv_pred res ! s) (buyout c)) / real (n_sim c)
             - capex c"
    unfolding e using valuation_pre[OF assms(1,2)] by (simp only: mm)
  have p: "\<forall>s<n_sim c. cv_pred res ! s
               = price st ! s ! buy_year c * fst (coef (regr res))
                 + opex st ! s ! buy_year c * snd (coef (regr res)) + intercept (regr res)"
    using valuation_pred_cells[OF assms] by blast
  show ?thesis using w p ft by blast
qed

text \<open>
  Four simulations with a buyout of 20: the predictions, 100/7, 100/3, 1700/441 and
  19300/441, differ from the realized continuation values, 1600/441, 10000/441, 6400/441
  and 8000/147, and it is the predictions that are floored at 20.
\<close>

theorem enpv_with_option_witness:
  "\<exists>res. valuation four_sims four_sims_paths four_sims_atcf = Inr res
      \<and> shape (n_sim four_sims) (T four_sims) four_sims_atcf
      \<and> shape (n_sim four_sims) (T four_sims) (price four_sims_paths)
      \<and> shape (n_sim four_sims) (T four_sims) (opex four_sims_paths)
      \<and> enpv_w_opt res
           = (\<Sum>s<n_sim four_sims. \<Sum>i<buy_year four_sims.
                 four_sims_atcf ! s ! i * (1 + r four_sims) powi (- (int i + 1)))
               / real (n_sim four_sims)
             + (\<Sum>s<n_sim four_sims. max (cv_pred res ! s) (buyout four_sims))
                 / real (n_sim four_sims)
             - capex four_sims
      \<and> enpv_w_opt res = - (349340 / 441)
      \<and> cv_pred res = [100 / 7, 100 / 3, 1700 / 441, 19300 / 441]
      \<and> npv_cont res = [1600 / 441, 10000 / 441, 6400 / 441, 8000 / 147]
      \<and> max_val res = [20, 100 / 3, 20, 19300 / 441]"
proof -
  let ?res = "\<lparr>npv = [190600 / 441, 199000 / 441, 195400 / 441, 71000 / 147],
        npv_cont = [1600 / 441, 10000 / 441, 6400 / 441, 8000 / 147],
        regr = \<lparr>coef = (- (6280 / 4851), - (21800 / 4851)), intercept = 974500 / 4851\<rparr>,
        cv_pred = [100 / 7, 100 / 3, 1700 / 441, 19300 / 441],
        max_val = [20, 100 / 3, 20, 19300 / 441],
        enpv_w_opt = - (349340 / 441), enpv_wo_opt = - (16750 / 21),
        opt_val = 2410 / 441 :: real\<rparr>"
  have main: "enpv_w_opt ?res
           = (\<Sum>s<n_sim four_sims. \<Sum>i<buy_year four_sims.
                 four_sims_atcf ! s ! i * (1 + r four_sims) powi (- (int i + 1)))
               / real (n_sim four_sims)
             + (\<Sum>s<n_sim four_sims. max (cv_pred ?res ! s) (buyout four_sims))
                 / real (n_sim four_sims)
             - capex four_sims"
    using enpv_with_option[OF valuation_four_sims four_sims_shape] by blast
  have vals: "enpv_w_opt ?res = - (349340 / 441)"
    "cv_pred ?res = [100 / 7, 100 / 3, 1700 / 441, 19300 / 441]"
    "npv_cont ?res = [1600 / 441, 10000 / 441, 6400 / 441, 8000 / 147]"
    "max_val ?res = [20, 100 / 3, 20, 19300 / 441]"
    by simp_all
  show ?thesis
    using valuation_four_sims four_sims_shape main vals by blast
qed

text \<open>
  Claim C5: the expected NPV without the option is the mean over the simulations of the
  full-horizon NPV, minus CAPEX, and the reported option value is the expected NPV with
  the option minus the expected NPV without it.
\<close>

theorem enpv_without_option:
  assumes "valuation c st a = Inr res"
    and "shape (n_sim c) (T c) a"
  shows "enpv_wo_opt res
           = (\<Sum>s<n_sim c. \<Sum>i<T c. a ! s ! i * (1 + r c) powi (- (int i + 1)))
               / real (n_sim c)
             - capex c
         \<and> enpv_wo_opt res = (\<Sum>s<n_sim c. npv res ! s) / real (n_sim c) - capex c
         \<and> opt_val res = enpv_w_opt res - enpv_wo_opt res"
proof -
  from assms(1) obtain d :: "real list" where
    wo: "enpv_wo_opt res = mean (npv res) - capex c"
    and ov: "opt_val res = enpv_w_opt res - enpv_wo_opt res"
    by (rule valuation_Inr)
  have e: "- (int i + 1) = - int i - 1" for i by simp
  have ln: "length (npv res) = n_sim c"
    using valuation_lengths(4)[OF assms(1)] shape_length[OF assms(2)] by simp
  have m: "mean (npv res) = (\<Sum>s<n_sim c. npv res ! s) / real (n_sim c)"
    by (rule mean_nth[OF ln])
  have "(\<Sum>s<n_sim c. npv res ! s)
          = (\<Sum>s<n_sim c. \<Sum>i<T c. a ! s ! i * (1 + r c) powi (- int i - 1))"
    by (rule sum.cong) (simp_all add: valuation_cells(1)[OF assms])
  then have m2: "mean (npv res)
          = (\<Sum>s<n_sim c. \<Sum>i<T c. a ! s ! i * (1 + r c) powi (- (int i + 1)))
              / real (n_sim c)"
    unfolding e using m by (simp only:)
  show ?thesis
    using wo ov m m2 by (simp only:)
qed

theorem enpv_without_option_witness:
  "\<exists>res. valuation four_sims four_sims_paths four_sims_atcf = Inr res
      \<and> shape (n_sim four_sims) (T four_sims) four_sims_atcf
      \<and> enpv_wo_opt res
           = (\<Sum>s<n_sim four_sims. \<Sum>i<T four_sims.
                 four_sims_atcf ! s ! i * (1 + r four_sims) powi (- (int i + 1)))
               / real (n_sim four_sims)
             - capex four_sims
      \<and> enpv_wo_opt res = (\<Sum>s<n_sim four_sims. npv res ! s) / real (n_sim four_sims)
                             - capex four_sims
      \<and> opt_val res = enpv_w_opt res - enpv_wo_opt res
      \<and> enpv_wo_opt res = - (16750 / 21) \<and> enpv_w_opt res = - (349340 / 441)
      \<and> opt_val res = 2410 / 441"
proof -
  let ?res = "\<lparr>npv = [190600 / 441, 199000 / 441, 195400 / 441, 71000 / 147],
        npv_cont = [1600 / 441, 10000 / 441, 6400 / 441, 8000 / 147],
        regr = \<lparr>coef = (- (6280 / 4851), - (21800 / 4851)), intercept = 974500 / 4851\<rparr>,
        cv_pred = [100 / 7, 100 / 3, 1700 / 441, 19300 / 441],
        max_val = [20, 100 / 3, 20, 19300 / 441],
        enpv_w_opt = - (349340 / 441), enpv_wo_opt = - (16750 / 21),
        opt_val = 2410 / 441 :: real\<rparr>"
  note main = enpv_without_option[OF valuation_four_sims four_sims_shape(1)]
  have vals: "enpv_wo_opt ?res = - (16750 / 21)" "enpv_w_opt ?res = - (349340 / 441)"
    "opt_val ?res = 2410 / 441"
    by simp_all
  show ?thesis
    using valuation_four_sims four_sims_shape(1) main vals by blast
qed

subsection \<open>The regression is a least-squares fit\<close>

lemma sum_sq_zero:
  fixes p :: "nat \<Rightarrow> real"
  assumes "(\<Sum>i<n. p i * p i) = 0" "i < n"
  shows "p i = 0"
proof -
  have "\<forall>i\<in>{..<n}. p i * p i = 0"
    using assms(1) by (subst (asm) sum_nonneg_eq_0_iff) simp_all
  with assms(2) show ?thesis by simp
qed

lemma collinear_cross:
  fixes u v w :: "nat \<Rightarrow> real"
  assumes det0: "(\<Sum>i<n. u i * u i) * (\<Sum>i<n. v i * v i)
                   = (\<Sum>i<n. u i * v i) * (\<Sum>i<n. u i * v i)"
  shows "(\<Sum>i<n. v i * v i) * (\<Sum>i<n. u i * w i) = (\<Sum>i<n. u i * v i) * (\<Sum>i<n. v i * w i)"
proof -
  define suu svv suv where "suu = (\<Sum>i<n. u i * u i)" and "svv = (\<Sum>i<n. v i * v i)"
    and "suv = (\<Sum>i<n. u i * v i)"
  define p where "p i = svv * u i - suv * v i" for i
  have d: "suu * svv = suv * suv" using det0 by (simp only: suu_def svv_def suv_def)
  have "(\<Sum>i<n. p i * p i)
          = (\<Sum>i<n. svv * svv * (u i * u i) - 2 * svv * suv * (u i * v i)
                     + suv * suv * (v i * v i))"
    by (rule sum.cong) (simp_all add: p_def algebra_simps)
  also have "\<dots> = svv * svv * suu - 2 * svv * suv * suv + suv * suv * svv"
    by (simp only: sum.distrib sum_subtractf sum_distrib_left[symmetric] suu_def svv_def suv_def)
  also have "\<dots> = svv * (suu * svv - suv * suv)"
    by (simp add: algebra_simps)
  also have "\<dots> = 0" using d by simp
  finally have z: "(\<Sum>i<n. p i * p i) = 0" .
  have "(\<Sum>i<n. p i * w i) = 0"
    by (rule sum.neutral) (use sum_sq_zero[OF z] in simp)
  moreover have "(\<Sum>i<n. p i * w i) = svv * (\<Sum>i<n. u i * w i) - suv * (\<Sum>i<n. v i * w i)"
    unfolding p_def by (simp add: algebra_simps sum_subtractf sum_distrib_left)
  ultimately show ?thesis by (simp add: svv_def suv_def)
qed

lemma least_squares_core:
  fixes e u v :: "nat \<Rightarrow> real"
  assumes "(\<Sum>i<n. e i) = 0" "(\<Sum>i<n. e i * u i) = 0" "(\<Sum>i<n. e i * v i) = 0"
  shows "(\<Sum>i<n. (e i)\<^sup>2) \<le> (\<Sum>i<n. (e i + (\<alpha> * u i + \<beta> * v i + \<gamma>))\<^sup>2)"
proof -
  let ?g = "\<lambda>i. \<alpha> * u i + \<beta> * v i + \<gamma>"
  have "(\<Sum>i<n. e i * ?g i) = \<alpha> * (\<Sum>i<n. e i * u i) + \<beta> * (\<Sum>i<n. e i * v i) + \<gamma> * (\<Sum>i<n. e i)"
    by (simp add: algebra_simps sum.distrib sum_distrib_left)
  then have eg: "(\<Sum>i<n. e i * ?g i) = 0" using assms by simp
  have "(\<Sum>i<n. (e i + ?g i)\<^sup>2) = (\<Sum>i<n. (e i)\<^sup>2 + 2 * (e i * ?g i) + (?g i)\<^sup>2)"
    by (rule sum.cong) (simp_all add: power2_sum)
  also have "\<dots> = (\<Sum>i<n. (e i)\<^sup>2) + 2 * (\<Sum>i<n. e i * ?g i) + (\<Sum>i<n. (?g i)\<^sup>2)"
    by (simp only: sum.distrib sum_distrib_left)
  finally have "(\<Sum>i<n. (e i + ?g i)\<^sup>2) = (\<Sum>i<n. (e i)\<^sup>2) + (\<Sum>i<n. (?g i)\<^sup>2)"
    using eg by simp
  moreover have "0 \<le> (\<Sum>i<n. (?g i)\<^sup>2)" by (rule sum_nonneg) simp
  ultimately show ?thesis by simp
qed

lemma sum_list_map2_map:
  assumes "length X = n" "length y = n"
  shows "sum_list (map2 (*) (map f X) (map g y)) = (\<Sum>i<n. f (X ! i) * (g (y ! i) :: real))"
proof -
  have "sum_list (map2 (*) (map f X) (map g y)) = (\<Sum>i<n. map f X ! i * map g y ! i)"
    by (rule sum_list_map2_nth) (simp_all add: assms)
  also have "\<dots> = (\<Sum>i<n. f (X ! i) * g (y ! i))"
    by (rule sum.cong) (simp_all add: assms)
  finally show ?thesis .
qed

lemma mean_map: "length X = n \<Longrightarrow> mean (map f X) = (\<Sum>i<n. f (X ! i)) / real n"
  using mean_nth[of "map f X" n] by simp

lemma centred_sum:
  fixes f :: "nat \<Rightarrow> real"
  assumes "0 < n"
  shows "(\<Sum>i<n. f i - (\<Sum>j<n. f j) / real n) = 0"
  using assms by (simp add: sum_subtractf)

lemma fit_coef:
  assumes "fit X y = Inr m"
  defines "n \<equiv> length X"
  defines "xm \<equiv> (\<Sum>i<n. fst (X ! i)) / real n" and "zm \<equiv> (\<Sum>i<n. snd (X ! i)) / real n"
    and "ym \<equiv> (\<Sum>i<n. y ! i) / real n"
  defines "suu \<equiv> (\<Sum>i<n. (fst (X ! i) - xm) * (fst (X ! i) - xm))"
    and "suv \<equiv> (\<Sum>i<n. (fst (X ! i) - xm) * (snd (X ! i) - zm))"
    and "svv \<equiv> (\<Sum>i<n. (snd (X ! i) - zm) * (snd (X ! i) - zm))"
    and "suw \<equiv> (\<Sum>i<n. (fst (X ! i) - xm) * (y ! i - ym))"
    and "svw \<equiv> (\<Sum>i<n. (snd (X ! i) - zm) * (y ! i - ym))"
  shows "coef m =
           (if suu * svv - suv * suv \<noteq> 0
            then ((svv * suw - suv * svw) / (suu * svv - suv * suv),
                  (suu * svw - suv * suw) / (suu * svv - suv * suv))
            else if suu + svv \<noteq> 0 then (suw / (suu + svv), svw / (suu + svv))
            else (0, 0))"
    and "intercept m = ym - (xm * fst (coef m) + zm * snd (coef m))"
proof -
  have len: "length X = n" "length y = n"
    using fit_Inr(2)[OF assms(1)] by (simp_all add: n_def)
  have means: "mean (map fst X) = xm" "mean (map snd X) = zm" "mean y = ym"
    using mean_map[OF len(1), of fst] mean_map[OF len(1), of snd] mean_nth[OF len(2)]
    by (simp_all add: xm_def zm_def ym_def)
  have sums:
    "sum_list (map2 (*) (map (\<lambda>p. fst p - xm) X) (map (\<lambda>p. fst p - xm) X)) = suu"
    "sum_list (map2 (*) (map (\<lambda>p. fst p - xm) X) (map (\<lambda>p. snd p - zm) X)) = suv"
    "sum_list (map2 (*) (map (\<lambda>p. snd p - zm) X) (map (\<lambda>p. snd p - zm) X)) = svv"
    "sum_list (map2 (*) (map (\<lambda>p. fst p - xm) X) (map (\<lambda>t. t - ym) y)) = suw"
    "sum_list (map2 (*) (map (\<lambda>p. snd p - zm) X) (map (\<lambda>t. t - ym) y)) = svw"
    unfolding suu_def suv_def svv_def suw_def svw_def
    by (simp_all only: sum_list_map2_map[OF len(1) len(1)] sum_list_map2_map[OF len(1) len(2)])
  from assms(1) have "length X \<noteq> 0" "length X = length y"
    using fit_Inr(1,2)[OF assms(1)] by simp_all
  with assms(1) have m: "m = (let b = (if suu * svv - suv * suv \<noteq> 0
            then ((svv * suw - suv * svw) / (suu * svv - suv * suv),
                  (suu * svw - suv * suw) / (suu * svv - suv * suv))
            else if suu + svv \<noteq> 0 then (suw / (suu + svv), svw / (suu + svv))
            else (0, 0)) in \<lparr>coef = b, intercept = ym - (xm * fst b + zm * snd b)\<rparr>)"
    unfolding fit_def Let_def means sums by (simp only: if_False simp_thms sum.inject)
  show "coef m =
           (if suu * svv - suv * suv \<noteq> 0
            then ((svv * suw - suv * svw) / (suu * svv - suv * suv),
                  (suu * svw - suv * suw) / (suu * svv - suv * suv))
            else if suu + svv \<noteq> 0 then (suw / (suu + svv), svw / (suu + svv))
            else (0, 0))"
    unfolding m Let_def by (simp only: linear_model.simps)
  show "intercept m = ym - (xm * fst (coef m) + zm * snd (coef m))"
    unfolding m Let_def by (simp only: linear_model.simps)
qed

lemma normal_equations_solved:
  fixes u v w :: "nat \<Rightarrow> real" and n :: nat and b :: "real \<times> real"
  defines "suu \<equiv> (\<Sum>i<n. u i * u i)" and "suv \<equiv> (\<Sum>i<n. u i * v i)"
    and "svv \<equiv> (\<Sum>i<n. v i * v i)" and "suw \<equiv> (\<Sum>i<n. u i * w i)"
    and "svw \<equiv> (\<Sum>i<n. v i * w i)"
  assumes b: "b =
           (if suu * svv - suv * suv \<noteq> 0
            then ((svv * suw - suv * svw) / (suu * svv - suv * suv),
                  (suu * svw - suv * suw) / (suu * svv - suv * suv))
            else if suu + svv \<noteq> 0 then (suw / (suu + svv), svw / (suu + svv))
            else (0, 0))"
  shows "suw - fst b * suu - snd b * suv = 0" "svw - fst b * suv - snd b * svv = 0"
proof -
  have nn: "0 \<le> suu" "0 \<le> svv"
    unfolding suu_def svv_def by (simp_all add: sum_nonneg)
  consider (regular) "suu * svv - suv * suv \<noteq> 0"
    | (line) "suu * svv - suv * suv = 0" "suu + svv \<noteq> 0"
    | (point) "suu * svv - suv * suv = 0" "suu + svv = 0"
    by blast
  then have "suw - fst b * suu - snd b * suv = 0 \<and> svw - fst b * suv - snd b * svv = 0"
  proof cases
    case regular
    then have "b = ((svv * suw - suv * svw) / (suu * svv - suv * suv),
                    (suu * svw - suv * suw) / (suu * svv - suv * suv))"
      using b by simp
    then show ?thesis using regular by (simp add: field_simps)
  next
    case line
    have d: "suu * svv = suv * suv" using line(1) by simp
    have c1: "svv * suw = suv * svw"
      unfolding svv_def suw_def suv_def svw_def
      by (rule collinear_cross) (use d in \<open>simp only: suu_def svv_def suv_def\<close>)
    have d': "(\<Sum>i<n. v i * v i) * (\<Sum>i<n. u i * u i)
                = (\<Sum>i<n. v i * u i) * (\<Sum>i<n. v i * u i)"
      using d unfolding suu_def svv_def suv_def by (simp add: mult.commute)
    have c2: "suu * svw = suv * suw"
      using collinear_cross[OF d', of w] unfolding suu_def svw_def suv_def suw_def
      by (simp add: mult.commute)
    have bb: "b = (suw / (suu + svv), svw / (suu + svv))"
      using b line by simp
    have fS: "fst b * (suu + svv) = suw" "snd b * (suu + svv) = svw"
      using line(2) by (simp_all add: bb)
    have "(suw - fst b * suu - snd b * suv) * (suu + svv)
            = suw * (suu + svv) - fst b * (suu + svv) * suu - snd b * (suu + svv) * suv"
      by (simp add: algebra_simps)
    also have "\<dots> = svv * suw - suv * svw"
      unfolding fS by (simp add: algebra_simps)
    finally have t1: "(suw - fst b * suu - snd b * suv) * (suu + svv) = 0"
      using c1 by simp
    have "(svw - fst b * suv - snd b * svv) * (suu + svv)
            = svw * (suu + svv) - fst b * (suu + svv) * suv - snd b * (suu + svv) * svv"
      by (simp add: algebra_simps)
    also have "\<dots> = suu * svw - suv * suw"
      unfolding fS by (simp add: algebra_simps)
    finally have t2: "(svw - fst b * suv - snd b * svv) * (suu + svv) = 0"
      using c2 by simp
    show ?thesis using t1 t2 line(2) by simp
  next
    case point
    from point(2) nn have z: "suu = 0" "svv = 0" by simp_all
    have u0: "u i = 0" if "i < n" for i
      using sum_sq_zero[where p = u and n = n and i = i] z(1) that unfolding suu_def by simp
    have v0: "v i = 0" if "i < n" for i
      using sum_sq_zero[where p = v and n = n and i = i] z(2) that unfolding svv_def by simp
    have "suw = 0" "svw = 0"
      unfolding suw_def svw_def by (simp_all add: u0 v0)
    moreover have "b = (0, 0)" using b point by simp
    ultimately show ?thesis by simp
  qed
  then show "suw - fst b * suu - snd b * suv = 0" "svw - fst b * suv - snd b * svv = 0"
    by simp_all
qed

text \<open>
  The fitted plane satisfies the normal equations of an ordinary least-squares fit with
  an intercept: the residuals sum to zero and are orthogonal to both regressors.
\<close>

lemma fit_normal_equations:
  assumes "fit X y = Inr m"
  shows "(\<Sum>i<length X. y ! i - predict m X ! i) = 0"
    and "(\<Sum>i<length X. (y ! i - predict m X ! i) * fst (X ! i)) = 0"
    and "(\<Sum>i<length X. (y ! i - predict m X ! i) * snd (X ! i)) = 0"
proof -
  define n where "n = length X"
  define xm zm ym where "xm = (\<Sum>i<n. fst (X ! i)) / real n"
    and "zm = (\<Sum>i<n. snd (X ! i)) / real n" and "ym = (\<Sum>i<n. y ! i) / real n"
  define u v w where "u = (\<lambda>i. fst (X ! i) - xm)" and "v = (\<lambda>i. snd (X ! i) - zm)"
    and "w = (\<lambda>i. y ! i - ym)"
  define e where "e = (\<lambda>i. y ! i - predict m X ! i)"
  define b1 b2 where "b1 = fst (coef m)" and "b2 = snd (coef m)"
  have n: "0 < n" using fit_Inr(1)[OF assms(1)] by (simp add: n_def)
  note fc = fit_coef[OF assms(1), folded n_def, folded xm_def zm_def ym_def]
  note ne = normal_equations_solved[where b = "coef m" and n = n
      and u = "\<lambda>i. fst (X ! i) - xm" and v = "\<lambda>i. snd (X ! i) - zm"
      and w = "\<lambda>i. y ! i - ym", OF fc(1), folded b1_def b2_def]
  have ei: "e i = w i - b1 * u i - b2 * v i" if "i < n" for i
    using that
    by (simp add: e_def predict_nth n_def[symmetric] fc(2) u_def v_def w_def b1_def b2_def
        algebra_simps)
  have c: "(\<Sum>i<n. u i) = 0" "(\<Sum>i<n. v i) = 0" "(\<Sum>i<n. w i) = 0"
    unfolding u_def v_def w_def xm_def zm_def ym_def by (simp_all only: centred_sum[OF n])
  have "(\<Sum>i<n. e i) = (\<Sum>i<n. w i - b1 * u i - b2 * v i)"
    by (rule sum.cong) (simp_all add: ei)
  also have "\<dots> = (\<Sum>i<n. w i) - b1 * (\<Sum>i<n. u i) - b2 * (\<Sum>i<n. v i)"
    by (simp only: sum_subtractf sum_distrib_left)
  finally have s0: "(\<Sum>i<n. e i) = 0" using c by simp
  have "(\<Sum>i<n. e i * u i) = (\<Sum>i<n. u i * w i - b1 * (u i * u i) - b2 * (u i * v i))"
    by (rule sum.cong) (simp_all add: ei algebra_simps)
  also have "\<dots> = (\<Sum>i<n. u i * w i) - b1 * (\<Sum>i<n. u i * u i) - b2 * (\<Sum>i<n. u i * v i)"
    by (simp only: sum_subtractf sum_distrib_left)
  finally have su: "(\<Sum>i<n. e i * u i) = 0"
    using ne(1) by (simp only: u_def v_def w_def)
  have "(\<Sum>i<n. e i * v i) = (\<Sum>i<n. v i * w i - b1 * (u i * v i) - b2 * (v i * v i))"
    by (rule sum.cong) (simp_all add: ei algebra_simps)
  also have "\<dots> = (\<Sum>i<n. v i * w i) - b1 * (\<Sum>i<n. u i * v i) - b2 * (\<Sum>i<n. v i * v i)"
    by (simp only: sum_subtractf sum_distrib_left)
  finally have sv: "(\<Sum>i<n. e i * v i) = 0"
    using ne(2) by (simp only: u_def v_def w_def)
  have "(\<Sum>i<n. e i * fst (X ! i)) = (\<Sum>i<n. e i * u i + xm * e i)"
    by (rule sum.cong) (simp_all add: u_def algebra_simps)
  also have "\<dots> = (\<Sum>i<n. e i * u i) + xm * (\<Sum>i<n. e i)"
    by (simp only: sum.distrib sum_distrib_left)
  finally have sx: "(\<Sum>i<n. e i * fst (X ! i)) = 0" using su s0 by simp
  have "(\<Sum>i<n. e i * snd (X ! i)) = (\<Sum>i<n. e i * v i + zm * e i)"
    by (rule sum.cong) (simp_all add: v_def algebra_simps)
  also have "\<dots> = (\<Sum>i<n. e i * v i) + zm * (\<Sum>i<n. e i)"
    by (simp only: sum.distrib sum_distrib_left)
  finally have sz: "(\<Sum>i<n. e i * snd (X ! i)) = 0" using sv s0 by simp
  show "(\<Sum>i<length X. y ! i - predict m X ! i) = 0"
    using s0 by (simp only: e_def n_def)
  show "(\<Sum>i<length X. (y ! i - predict m X ! i) * fst (X ! i)) = 0"
    using sx by (simp only: e_def n_def)
  show "(\<Sum>i<length X. (y ! i - predict m X ! i) * snd (X ! i)) = 0"
    using sz by (simp only: e_def n_def)
qed

text \<open>
  Hence no plane has a smaller sum of squared residuals than the fitted one: the model
  of the regression is an ordinary least-squares fit.
\<close>

lemma fit_least_squares:
  assumes "fit X y = Inr m"
  shows "(\<Sum>i<length X. (y ! i - predict m X ! i)\<^sup>2)
           \<le> (\<Sum>i<length X. (y ! i - (fst (X ! i) * a + snd (X ! i) * b + k))\<^sup>2)"
proof -
  note ne = fit_normal_equations[OF assms]
  have "(\<Sum>i<length X. (y ! i - predict m X ! i)\<^sup>2)
          \<le> (\<Sum>i<length X. (y ! i - predict m X ! i
                                 + ((fst (coef m) - a) * fst (X ! i)
                                     + (snd (coef m) - b) * snd (X ! i)
                                     + (intercept m - k)))\<^sup>2)"
    by (rule least_squares_core[where e = "\<lambda>i. y ! i - predict m X ! i"
          and u = "\<lambda>i. fst (X ! i)" and v = "\<lambda>i. snd (X ! i)", OF ne])
  also have "\<dots> = (\<Sum>i<length X. (y ! i - (fst (X ! i) * a + snd (X ! i) * b + k))\<^sup>2)"
    by (rule sum.cong) (simp_all add: predict_nth algebra_simps)
  finally show ?thesis .
qed

subsection \<open>The stages fit together\<close>

text \<open>
  When the script returns, its three stages returned, and the matrices they hand on have
  the shape \<open>(n_sim, T)\<close> that the theorems on the single stages assume.
\<close>

lemma run_shapes:
  assumes "run c Z = Inr res"
  shows "\<exists>st cf. simulate c Z = Inr st \<and> cash_flow c st = Inr cf
           \<and> valuation c st (atcf cf) = Inr res
           \<and> shape (n_sim c) (T c) (price st) \<and> shape (n_sim c) (T c) (opex st)
           \<and> shape (n_sim c) (T c) (atcf cf)"
proof -
  from assms obtain st cf where sim: "simulate c Z = Inr st"
    and cf: "cash_flow c st = Inr cf" and v: "valuation c st (atcf cf) = Inr res"
    by (rule run_Inr)
  note shp = simulate_Inr(2,3)[OF sim]
  show ?thesis
    using sim cf v shp cash_flow_shape(3)[OF cf shp] by blast
qed

subsection \<open>The depreciation schedule\<close>

lemma depr_vec_mine_co:
  "depr_vec mine_co =
     Inr [0.1429, 0.2449, 0.1749, 0.1249, 0.0893, 0.0892, 0.0893, 0.0446, 0, 0]"
  by (simp add: depr_vec_def mine_co_def numeral_2_eq_2)

text \<open>
  Claim C10, as stated: the literal depreciation fractions sum to exactly 0.9999.
  They do not: the eight fractions of the script sum to exactly 1.
\<close>

theorem depr_sch_sum_not_9999:
  "sum_list (depr_sch mine_co) \<noteq> 0.9999"
  by (simp add: mine_co_def)

text \<open>
  Claim C10, amended: the literal depreciation fractions sum to exactly 1, which is not
  above 1, and the depreciation applied over the ten periods of the script
  (CAPEX times the padded schedule) sums to exactly CAPEX, 1250, so it does not exceed CAPEX.
\<close>

theorem depr_sch_sum_one:
  "sum_list (depr_sch mine_co) = 1
   \<and> sum_list (depr_sch mine_co) \<le> 1
   \<and> (\<exists>dv. depr_vec mine_co = Inr dv
         \<and> sum_list (map (\<lambda>d. capex mine_co * d) dv) = capex mine_co
         \<and> sum_list (map (\<lambda>d. capex mine_co * d) dv) \<le> capex mine_co)"
  by (simp add: depr_vec_mine_co) (simp add: mine_co_def)

end
